theory Spec2Isabelle
  imports Main "HOL-Library.AList"
begin

section \<open>The download supervisor of \<^verbatim>\<open>m3u8_downloader.py\<close>\<close>

text \<open>
  The module has one operation of substance, \<^verbatim>\<open>download_m3u8\<close>: it resolves the output
  path, merges the request headers, builds the argument vector of the external tool and
  runs the tool in a retry loop. The embedding below follows the source statement by
  statement. Everything the function does to its surroundings (console output, the log
  callback, process creation, sleeping) is recorded as an event in a trace; the file system
  is a map from paths to contents, and the external tool is an oracle that says, for the
  process started on a given attempt with a given argument vector, what it printed, how it
  ended and what it did to the file system.
\<close>

subsection \<open>Strings\<close>

text \<open>
  A Python \<^verbatim>\<open>str\<close> is modelled as \<^typ>\<open>string\<close>, the bytes of its UTF-8 encoding.
  \<^verbatim>\<open>str.lower\<close> is modelled on the ASCII letters, which is all that the suffix test
  \<^verbatim>\<open>.lower().endswith('.mp4')\<close> can observe: no character outside ASCII has one of
  \<^verbatim>\<open>.\<close>, \<^verbatim>\<open>m\<close>, \<^verbatim>\<open>p\<close>, \<^verbatim>\<open>4\<close> as its lower case, and every byte of
  a multi-byte UTF-8 sequence is at least 128.
\<close>

definition lower_char :: "char \<Rightarrow> char" where
  "lower_char c =
     (case map_of (zip ''ABCDEFGHIJKLMNOPQRSTUVWXYZ'' ''abcdefghijklmnopqrstuvwxyz'') c of
        Some l \<Rightarrow> l
      | None \<Rightarrow> c)"

definition lower :: "string \<Rightarrow> string" where
  "lower s = map lower_char s"

definition endswith :: "string \<Rightarrow> string \<Rightarrow> bool" where
  "endswith s suffix =
     (length suffix \<le> length s \<and> drop (length s - length suffix) s = suffix)"

text \<open>
  \<^verbatim>\<open>str.strip()\<close> removes the white space characters from both ends of a string: the
  characters for which \<^verbatim>\<open>str.isspace\<close> holds, which are U+0009 to U+000D, U+001C to
  U+0020, U+0085, U+00A0, U+1680, U+2000 to U+200A, U+2028, U+2029, U+202F, U+205F and
  U+3000. \<open>whitespace\<close> lists their UTF-8 encodings. In well-formed UTF-8 a lead byte
  stands only at the start of a character, so an encoding found at the start or at the end
  of the bytes is that character.
\<close>

definition whitespace :: "string list" where
  "whitespace =
     [[CHR 0x09], [CHR 0x0A], [CHR 0x0B], [CHR 0x0C], [CHR 0x0D],
      [CHR 0x1C], [CHR 0x1D], [CHR 0x1E], [CHR 0x1F], [CHR 0x20],
      [CHR 0xC2, CHR 0x85], [CHR 0xC2, CHR 0xA0],
      [CHR 0xE1, CHR 0x9A, CHR 0x80],
      [CHR 0xE2, CHR 0x80, CHR 0x80], [CHR 0xE2, CHR 0x80, CHR 0x81],
      [CHR 0xE2, CHR 0x80, CHR 0x82], [CHR 0xE2, CHR 0x80, CHR 0x83],
      [CHR 0xE2, CHR 0x80, CHR 0x84], [CHR 0xE2, CHR 0x80, CHR 0x85],
      [CHR 0xE2, CHR 0x80, CHR 0x86], [CHR 0xE2, CHR 0x80, CHR 0x87],
      [CHR 0xE2, CHR 0x80, CHR 0x88], [CHR 0xE2, CHR 0x80, CHR 0x89],
      [CHR 0xE2, CHR 0x80, CHR 0x8A],
      [CHR 0xE2, CHR 0x80, CHR 0xA8], [CHR 0xE2, CHR 0x80, CHR 0xA9],
      [CHR 0xE2, CHR 0x80, CHR 0xAF],
      [CHR 0xE2, CHR 0x81, CHR 0x9F],
      [CHR 0xE3, CHR 0x80, CHR 0x80]]"

text \<open>Removing, again and again, a leading sequence that is one of \<open>seqs\<close>.\<close>

function strip_left :: "string list \<Rightarrow> string \<Rightarrow> string" where
  "strip_left seqs s =
     (case find (\<lambda>ws. ws \<noteq> [] \<and> take (length ws) s = ws) seqs of
        None \<Rightarrow> s
      | Some ws \<Rightarrow> strip_left seqs (drop (length ws) s))"
  by pat_completeness auto
termination
proof (relation "measure (\<lambda>(seqs, s). length s)")
  show "wf (measure (\<lambda>(seqs, s). length s))" by simp
next
  fix seqs :: "string list" and s ws :: string
  assume "find (\<lambda>ws. ws \<noteq> [] \<and> take (length ws) s = ws) seqs = Some ws"
  then have ne: "ws \<noteq> []" and pre: "take (length ws) s = ws" by (auto simp: find_Some_iff)
  have pos: "0 < length ws" using ne by simp
  have "length ws = min (length s) (length ws)" using pre by (metis length_take)
  then have "length ws \<le> length s" by simp
  with pos have "length s - length ws < length s" by arith
  then show "((seqs, drop (length ws) s), (seqs, s)) \<in> measure (\<lambda>(seqs, s). length s)"
    by simp
qed

declare strip_left.simps [simp del]

definition lstrip :: "string \<Rightarrow> string" where
  "lstrip s = strip_left whitespace s"

definition rstrip :: "string \<Rightarrow> string" where
  "rstrip s = rev (strip_left (map rev whitespace) (rev s))"

definition strip :: "string \<Rightarrow> string" where
  "strip s = rstrip (lstrip s)"

text \<open>\<^verbatim>\<open>str(n)\<close> for an integer: decimal digits, with a minus sign below zero.\<close>

fun str_nat :: "nat \<Rightarrow> string" where
  "str_nat n =
     (if n < 10 then [''0123456789'' ! n]
      else str_nat (n div 10) @ [''0123456789'' ! (n mod 10)])"

declare str_nat.simps [simp del]

definition str :: "int \<Rightarrow> string" where
  "str i = (if i < 0 then ''-'' @ str_nat (nat (- i)) else str_nat (nat i))"

definition CRLF :: string where
  "CRLF = [CHR 0x0D, CHR 0x0A]"

subsection \<open>Dictionaries\<close>

text \<open>
  A Python \<^verbatim>\<open>dict\<close> keeps its keys in insertion order, and \<^verbatim>\<open>download_m3u8\<close>
  serialises the merged headers in that order, so a dictionary is an association list.
  Storing under a key that is present replaces the value where the key stands; storing
  under a new key appends: this is \<^const>\<open>AList.update\<close>. The dictionary display
  \<^verbatim>\<open>{**a, **b}\<close> starts from \<^verbatim>\<open>a\<close> and stores the items of \<^verbatim>\<open>b\<close> from left to right.
\<close>

type_synonym dict = "(string \<times> string) list"

definition dict_merge :: "('k \<times> 'v) list \<Rightarrow> ('k \<times> 'v) list \<Rightarrow> ('k \<times> 'v) list" where
  "dict_merge a b = fold (\<lambda>(k, v). AList.update k v) b a"

definition default_headers :: dict where
  "default_headers =
     [(''User-Agent'',
       ''Mozilla/5.0 (Macintosh; Intel Mac OS X 10_15_7) AppleWebKit/537.36 (KHTML, like Gecko) Chrome/114.0.0.0 Safari/537.36''),
      (''Accept'',
       ''text/html,application/xhtml+xml,application/xml;q=0.9,image/webp,*/*;q=0.8''),
      (''Accept-Language'', ''zh-CN,zh;q=0.9,en;q=0.8''),
      (''Connection'', ''keep-alive'')]"

text \<open>Line 54: \<^verbatim>\<open>{**default_headers, **(headers or {})}\<close>.\<close>

definition request_headers :: "dict option \<Rightarrow> dict" where
  "request_headers headers =
     dict_merge default_headers (case headers of None \<Rightarrow> [] | Some h \<Rightarrow> h)"

subsection \<open>The output path\<close>

text \<open>
  Lines 37 to 43. \<^verbatim>\<open>not output_file\<close> holds for \<^verbatim>\<open>None\<close> and for the empty string;
  \<open>now\<close> is the value of \<^verbatim>\<open>int(time.time())\<close>.
\<close>

definition resolve_output :: "int \<Rightarrow> string option \<Rightarrow> string" where
  "resolve_output now output_file =
     (let output_file1 =
            (case output_file of
               None \<Rightarrow> ''output_'' @ str now @ ''.mp4''
             | Some f \<Rightarrow> if f = [] then ''output_'' @ str now @ ''.mp4'' else f)
      in if \<not> endswith (lower output_file1) ''.mp4''
         then output_file1 @ ''.mp4''
         else output_file1)"

subsection \<open>The argument vector\<close>

text \<open>
  Line 64 writes every item of the merged headers as \<^verbatim>\<open>f"{k}: {v}\r\n"\<close> and
  concatenates the pieces with \<^verbatim>\<open>''.join\<close>; lines 65 to 73 build the command.
\<close>

definition headers_str :: "dict \<Rightarrow> string" where
  "headers_str hs = concat (map (\<lambda>(k, v). k @ '': '' @ v @ CRLF) hs)"

definition build_cmd :: "string \<Rightarrow> string \<Rightarrow> string \<Rightarrow> int \<Rightarrow> string \<Rightarrow> string list" where
  "build_cmd ffmpeg_path hdrs url timeout output_file =
     [ffmpeg_path,
      ''-headers'', hdrs,
      ''-i'', url,
      ''-c'', ''copy'',
      ''-bsf:a'', ''aac_adtstoasc'',
      ''-timeout'', str timeout,
      output_file]"

subsection \<open>Requests, events and the world\<close>

text \<open>
  The parameters of \<^verbatim>\<open>download_m3u8\<close>. \<open>log_callback\<close> says whether a callback was
  passed (\<^verbatim>\<open>if callback:\<close> in \<^verbatim>\<open>log\<close>); calling it is an event of the trace. The
  callback and \<^verbatim>\<open>print\<close> are taken to return normally.
\<close>

record request =
  url :: string
  output_file :: "string option"
  headers :: "dict option"
  ffmpeg_path :: string
  timeout :: int
  quiet :: bool
  log_callback :: bool
  retry :: int
  retry_delay :: int

text \<open>
  The log messages of the source are formatted strings in Chinese; they are kept as
  constructors that carry the formatted values, in the order of the source lines
  58, 61, 78, 97, 100, 102 and 108, 106, 111.
\<close>

datatype log_message =
    FileExists string
  | StartDownload string
  | AttemptOf int int
  | DownloadDone string
  | DownloadFailed int
  | RetryIn int
  | DownloadError string
  | MaxRetries

datatype event =
    PrintLine string
  | PrintMsg log_message
  | CallbackMsg log_message
  | Spawn "string list"
  | Sleep int

type_synonym fs = "string \<Rightarrow> string option"

record world =
  files :: fs
  trace :: "event list"

text \<open>
  What a process started by \<^verbatim>\<open>subprocess.Popen\<close> does: \<open>SpawnFault e\<close> when
  \<^verbatim>\<open>Popen\<close> itself raises \<open>e\<close> (no process exists), \<open>RelayFault ls e\<close> when reading
  the output or waiting raises \<open>e\<close> after the lines \<open>ls\<close> were read, and
  \<open>Exited ls rc\<close> when the process printed \<open>ls\<close> and ended with return code \<open>rc\<close>.
  \<open>writes\<close> is what the process does to the file system.
\<close>

datatype proc_result =
    SpawnFault string
  | RelayFault "string list" string
  | Exited "string list" int

record process =
  outcome :: proc_result
  writes :: "fs \<Rightarrow> fs"

text \<open>
  The surroundings of a call: \<open>clock\<close> is \<^verbatim>\<open>int(time.time())\<close>, and \<open>tool k argv\<close> is
  the process that the \<open>k\<close>-th attempt (from 0) gets for the argument vector \<open>argv\<close>.
\<close>

record env =
  clock :: int
  tool :: "nat \<Rightarrow> string list \<Rightarrow> process"

definition emit :: "event \<Rightarrow> world \<Rightarrow> world" where
  "emit e w = w\<lparr>trace := trace w @ [e]\<rparr>"

text \<open>Lines 114 to 119.\<close>

definition log :: "log_message \<Rightarrow> bool \<Rightarrow> bool \<Rightarrow> world \<Rightarrow> world" where
  "log message quiet' callback w =
     (let w1 = (if \<not> quiet' then emit (PrintMsg message) w else w)
      in if callback then emit (CallbackMsg message) w1 else w1)"

text \<open>\<^verbatim>\<open>os.path.exists\<close>.\<close>

definition path_exists :: "world \<Rightarrow> string \<Rightarrow> bool" where
  "path_exists w p = (files w p \<noteq> None)"

text \<open>
  \<^verbatim>\<open>time.sleep\<close> raises \<^verbatim>\<open>ValueError\<close> for a negative argument and otherwise blocks
  for the given time.
\<close>

definition sleep :: "int \<Rightarrow> world \<Rightarrow> string + world" where
  "sleep secs w =
     (if secs < 0 then Inl ''sleep length must be non-negative''
      else Inr (emit (Sleep secs) w))"

text \<open>Lines 89 to 91: each line of the process is printed, stripped, unless quiet.\<close>

definition relay :: "string list \<Rightarrow> bool \<Rightarrow> world \<Rightarrow> world" where
  "relay ls quiet' w =
     fold (\<lambda>line w'. if \<not> quiet' then emit (PrintLine (strip line)) w' else w') ls w"

subsection \<open>The retry loop\<close>

text \<open>
  How a pass through the loop body ends: the loop goes on, the function returns, or an
  exception leaves the function.
\<close>

datatype control = Continue | Return bool | Raise string

text \<open>The handler, lines 105 to 109. Its \<^verbatim>\<open>time.sleep\<close> is outside any \<^verbatim>\<open>try\<close>.\<close>

definition on_exception :: "request \<Rightarrow> int \<Rightarrow> string \<Rightarrow> world \<Rightarrow> control \<times> world" where
  "on_exception rq attempt e w =
     (let w1 = log (DownloadError e) (quiet rq) (log_callback rq) w
      in if attempt < retry rq then
           (let w2 = log (RetryIn (retry_delay rq)) (quiet rq) (log_callback rq) w1
            in case sleep (retry_delay rq) w2 of
                 Inl e' \<Rightarrow> (Raise e', w2)
               | Inr w3 \<Rightarrow> (Continue, w3))
         else (Continue, w1))"

text \<open>
  The body of the loop, lines 77 to 109, for the attempt \<open>attempt\<close>. The \<^verbatim>\<open>time.sleep\<close>
  of line 103 is inside the \<^verbatim>\<open>try\<close>, so what it raises reaches the handler.
\<close>

definition attempt_body ::
  "env \<Rightarrow> request \<Rightarrow> string list \<Rightarrow> string \<Rightarrow> int \<Rightarrow> world \<Rightarrow> control \<times> world" where
  "attempt_body ev rq cmd out attempt w =
     (let w1 = log (AttemptOf (attempt + 1) (retry rq + 1)) (quiet rq) (log_callback rq) w;
          p = tool ev (nat attempt) cmd;
          w2 = emit (Spawn cmd) w1
      in case outcome p of
           SpawnFault e \<Rightarrow> on_exception rq attempt e w2
         | RelayFault ls e \<Rightarrow>
             on_exception rq attempt e
               (relay ls (quiet rq) (w2\<lparr>files := writes p (files w2)\<rparr>))
         | Exited ls rc \<Rightarrow>
             (let w3 = relay ls (quiet rq) (w2\<lparr>files := writes p (files w2)\<rparr>)
              in if rc = 0 then
                   (Return True, log (DownloadDone out) (quiet rq) (log_callback rq) w3)
                 else
                   (let w4 = log (DownloadFailed rc) (quiet rq) (log_callback rq) w3
                    in if attempt < retry rq then
                         (let w5 = log (RetryIn (retry_delay rq)) (quiet rq)
                                     (log_callback rq) w4
                          in case sleep (retry_delay rq) w5 of
                               Inl e \<Rightarrow> on_exception rq attempt e w5
                             | Inr w6 \<Rightarrow> (Continue, w6))
                       else (Continue, w4))))"

text \<open>\<^verbatim>\<open>range(n)\<close> for an integer \<open>n\<close>: empty when \<open>n \<le> 0\<close>.\<close>

definition range_py :: "int \<Rightarrow> int list" where
  "range_py n = map int [0..<nat n]"

text \<open>\<^verbatim>\<open>for attempt in ...\<close>, line 76: the body runs until it returns or raises.\<close>

fun retry_loop ::
  "env \<Rightarrow> request \<Rightarrow> string list \<Rightarrow> string \<Rightarrow> int list \<Rightarrow> world \<Rightarrow> control \<times> world" where
  "retry_loop ev rq cmd out [] w = (Continue, w)"
| "retry_loop ev rq cmd out (attempt # rest) w =
     (case attempt_body ev rq cmd out attempt w of
        (Continue, w') \<Rightarrow> retry_loop ev rq cmd out rest w'
      | (Return b, w') \<Rightarrow> (Return b, w')
      | (Raise e, w') \<Rightarrow> (Raise e, w'))"

subsection \<open>\<^verbatim>\<open>download_m3u8\<close>\<close>

text \<open>The command that a request is run with (lines 37 to 73).\<close>

definition resolved_path :: "env \<Rightarrow> request \<Rightarrow> string" where
  "resolved_path ev rq = resolve_output (clock ev) (output_file rq)"

definition request_cmd :: "env \<Rightarrow> request \<Rightarrow> string list" where
  "request_cmd ev rq =
     build_cmd (ffmpeg_path rq) (headers_str (request_headers (headers rq))) (url rq)
       (timeout rq) (resolved_path ev rq)"

text \<open>
  The result is \<open>Inr b\<close> when the function returns \<open>b\<close> and \<open>Inl e\<close> when the
  exception \<open>e\<close> reaches the caller.
\<close>

definition download_m3u8 :: "env \<Rightarrow> request \<Rightarrow> world \<Rightarrow> (string + bool) \<times> world" where
  "download_m3u8 ev rq w =
     (let out = resolved_path ev rq
      in if path_exists w out then
           (Inr False, log (FileExists out) (quiet rq) (log_callback rq) w)
         else
           (let w1 = log (StartDownload (url rq)) (quiet rq) (log_callback rq) w;
                cmd = request_cmd ev rq
            in case retry_loop ev rq cmd out (range_py (retry rq + 1)) w1 of
                 (Return b, w') \<Rightarrow> (Inr b, w')
               | (Raise e, w') \<Rightarrow> (Inl e, w')
               | (Continue, w') \<Rightarrow>
                   (Inr False, log MaxRetries (quiet rq) (log_callback rq) w')))"

subsection \<open>Observing a run\<close>

text \<open>
  The claims speak of what a run did: how often the tool was started, how often the
  function slept, what reached the console and the callback. These are read off the trace.
\<close>

fun is_Spawn :: "event \<Rightarrow> bool" where
  "is_Spawn (Spawn argv) = True"
| "is_Spawn e = False"

fun is_Sleep :: "event \<Rightarrow> bool" where
  "is_Sleep (Sleep secs) = True"
| "is_Sleep e = False"

fun is_console :: "event \<Rightarrow> bool" where
  "is_console (PrintLine l) = True"
| "is_console (PrintMsg m) = True"
| "is_console e = False"

fun callback_message :: "event \<Rightarrow> log_message list" where
  "callback_message (CallbackMsg m) = [m]"
| "callback_message e = []"

definition spawns :: "event list \<Rightarrow> event list" where
  "spawns tr = filter is_Spawn tr"

definition sleeps :: "event list \<Rightarrow> event list" where
  "sleeps tr = filter is_Sleep tr"

text \<open>The process starts and sleeps of a run, in order.\<close>

definition actions :: "event list \<Rightarrow> event list" where
  "actions tr = filter (\<lambda>e. is_Spawn e \<or> is_Sleep e) tr"

definition callback_messages :: "event list \<Rightarrow> log_message list" where
  "callback_messages tr = concat (map callback_message tr)"

definition without_console :: "event list \<Rightarrow> event list" where
  "without_console tr = filter (\<lambda>e. \<not> is_console e) tr"

text \<open>The events that one call of \<^const>\<open>log\<close> and one relay of lines add to the trace.\<close>

definition log_events :: "log_message \<Rightarrow> bool \<Rightarrow> bool \<Rightarrow> event list" where
  "log_events m q cb = (if q then [] else [PrintMsg m]) @ (if cb then [CallbackMsg m] else [])"

definition relay_events :: "string list \<Rightarrow> bool \<Rightarrow> event list" where
  "relay_events ls q = (if q then [] else map (\<lambda>l. PrintLine (strip l)) ls)"

text \<open>
  The events that one pass through the loop body, and a run of the loop, add to the trace;
  they are the same from whatever world the pass or the loop starts.
\<close>

definition attempt_events ::
  "env \<Rightarrow> request \<Rightarrow> string list \<Rightarrow> string \<Rightarrow> int \<Rightarrow> event list" where
  "attempt_events ev rq cmd out a =
     trace (snd (attempt_body ev rq cmd out a \<lparr>files = Map.empty, trace = []\<rparr>))"

definition loop_events ::
  "env \<Rightarrow> request \<Rightarrow> string list \<Rightarrow> string \<Rightarrow> int list \<Rightarrow> event list" where
  "loop_events ev rq cmd out as =
     trace (snd (retry_loop ev rq cmd out as \<lparr>files = Map.empty, trace = []\<rparr>))"

text \<open>A process counts as a success when it ended with return code 0.\<close>

fun succeeded :: "proc_result \<Rightarrow> bool" where
  "succeeded (Exited ls rc) = (rc = 0)"
| "succeeded r = False"

fun exit_code :: "proc_result \<Rightarrow> int option" where
  "exit_code (Exited ls rc) = Some rc"
| "exit_code r = None"

fun fault :: "proc_result \<Rightarrow> string option" where
  "fault (SpawnFault e) = Some e"
| "fault (RelayFault ls e) = Some e"
| "fault (Exited ls rc) = None"

fun printed :: "proc_result \<Rightarrow> string list" where
  "printed (SpawnFault e) = []"
| "printed (RelayFault ls e) = ls"
| "printed (Exited ls rc) = ls"

text \<open>What a process does to the files: nothing when it could not be started.\<close>

definition effect :: "process \<Rightarrow> fs \<Rightarrow> fs" where
  "effect p f = (case outcome p of SpawnFault e \<Rightarrow> f | _ \<Rightarrow> writes p f)"

text \<open>
  The header block as the specification words it: the \<open>Key: Value\<close> pairs joined by
  CRLF, that is, with CRLF between consecutive pairs.
\<close>

fun join :: "string \<Rightarrow> string list \<Rightarrow> string" where
  "join sep [] = []"
| "join sep [x] = x"
| "join sep (x # y # ys) = x @ sep @ join sep (y # ys)"

definition crlf_joined :: "dict \<Rightarrow> string" where
  "crlf_joined hs = join CRLF (map (\<lambda>(k, v). k @ '': '' @ v) hs)"

subsection \<open>Example runs\<close>

text \<open>
  A request like the scenario of the specification (\<open>url = http://x/a.m3u8\<close>,
  \<open>output_file = t1\<close>) with a given retry count, and a stub tool that prints nothing,
  leaves the files alone and ends the process of attempt \<open>k\<close> as \<open>r k\<close> says. The
  theorems below are instantiated with them.
\<close>

definition example_request :: "int \<Rightarrow> request" where
  "example_request n =
     \<lparr>url = ''http://x/a.m3u8'', output_file = Some ''t1'', headers = None,
      ffmpeg_path = ''ffmpeg'', timeout = 600, quiet = False, log_callback = True,
      retry = n, retry_delay = 5\<rparr>"

definition stub_tool :: "(nat \<Rightarrow> proc_result) \<Rightarrow> env" where
  "stub_tool r = \<lparr>clock = 1700000000, tool = (\<lambda>k argv. \<lparr>outcome = r k, writes = (\<lambda>f. f)\<rparr>)\<rparr>"

text \<open>The stub of the scenario: every process ends with the same return code.\<close>

definition always_exit :: "int \<Rightarrow> env" where
  "always_exit rc = stub_tool (\<lambda>k. Exited [] rc)"

text \<open>
  The argument vector as the specification words it, with the CRLF-joined header block.
\<close>

definition spec_cmd :: "env \<Rightarrow> request \<Rightarrow> string list" where
  "spec_cmd ev rq =
     [ffmpeg_path rq,
      ''-headers'', crlf_joined (request_headers (headers rq)),
      ''-i'', url rq,
      ''-c'', ''copy'',
      ''-bsf:a'', ''aac_adtstoasc'',
      ''-timeout'', str (timeout rq),
      resolved_path ev rq]"

section \<open>Properties\<close>

subsection \<open>Header merge\<close>

lemma map_of_dict_merge: "map_of (dict_merge a b) = map_of a ++ map_of (rev b)"
proof (induction b arbitrary: a)
  case Nil
  show ?case by (simp add: dict_merge_def)
next
  case (Cons p b)
  obtain k v where p: "p = (k, v)" by (cases p)
  have "map_of (dict_merge a (p # b)) = map_of (dict_merge (AList.update k v a) b)"
    by (simp add: dict_merge_def p)
  also have "\<dots> = map_of (AList.update k v a) ++ map_of (rev b)"
    by (rule Cons.IH)
  also have "\<dots> = map_of a ++ map_of (rev (p # b))"
    by (simp add: p AList.update_conv' fun_eq_iff map_add_def split: option.splits)
  finally show ?case .
qed

lemma map_of_rev_distinct: "distinct (map fst b) \<Longrightarrow> map_of (rev b) = map_of b"
proof (induction b)
  case Nil
  show ?case by simp
next
  case (Cons p b)
  then have notin: "fst p \<notin> fst ` set b" and IH: "map_of (rev b) = map_of b" by auto
  have "map_of b (fst p) = None" using notin by (simp add: map_of_eq_None_iff)
  then show ?case
    by (cases p) (auto simp: IH fun_eq_iff map_add_def split: option.splits)
qed

lemma distinct_dict_merge: "distinct (map fst a) \<Longrightarrow> distinct (map fst (dict_merge a b))"
proof (induction b arbitrary: a)
  case Nil
  then show ?case by (simp add: dict_merge_def)
next
  case (Cons p b)
  have "distinct (map fst (AList.update (fst p) (snd p) a))"
    using Cons.prems by (rule AList.distinct_update)
  then have "distinct (map fst (dict_merge (AList.update (fst p) (snd p) a) b))"
    by (rule Cons.IH)
  then show ?case by (simp add: dict_merge_def split_def)
qed

lemma keys_dict_merge_present:
  "fst ` set b \<subseteq> fst ` set a \<Longrightarrow> map fst (dict_merge a b) = map fst a"
proof (induction b arbitrary: a)
  case Nil
  show ?case by (simp add: dict_merge_def)
next
  case (Cons p b)
  let ?a = "AList.update (fst p) (snd p) a"
  have k: "map fst ?a = map fst a" using Cons.prems by (simp add: AList.update_keys)
  then have "fst ` set ?a = fst ` set a" by (metis image_set)
  then have "fst ` set b \<subseteq> fst ` set ?a" using Cons.prems by simp
  then have "map fst (dict_merge ?a b) = map fst ?a" by (rule Cons.IH)
  then show ?case by (simp add: dict_merge_def split_def k)
qed

lemma keys_dict_merge_subset: "fst ` set b \<subseteq> fst ` set (dict_merge a b)"
proof -
  have "dom (map_of (dict_merge a b)) = dom (map_of a) \<union> dom (map_of (rev b))"
    by (simp add: map_of_dict_merge Un_commute)
  then show ?thesis by (auto simp: dom_map_of_conv_image_fst)
qed

text \<open>Two dictionaries with the same keys in the same order and the same lookups are equal.\<close>

lemma alist_eqI:
  "map fst xs = map fst ys \<Longrightarrow> distinct (map fst xs) \<Longrightarrow> map_of xs = map_of ys \<Longrightarrow> xs = ys"
proof (induction xs arbitrary: ys)
  case Nil
  then show ?case by simp
next
  case (Cons x xs)
  then obtain y ys' where ys: "ys = y # ys'" by (cases ys) auto
  have k: "fst x = fst y" and ks: "map fst xs = map fst ys'" using Cons.prems(1) ys by auto
  have "map_of (x # xs) (fst x) = map_of ys (fst x)" by (simp only: Cons.prems(3))
  then have v: "snd x = snd y" using ys k by simp
  have xy: "x = y" using k v by (simp add: prod_eq_iff)
  have notin: "fst x \<notin> fst ` set xs" using Cons.prems(2) by auto
  have "map_of xs = map_of ys'"
  proof
    fix z
    show "map_of xs z = map_of ys' z"
    proof (cases "z = fst x")
      case True
      have "map_of xs z = None" using notin True by (simp add: map_of_eq_None_iff)
      moreover have "fst x \<notin> fst ` set ys'" using notin ks by (metis image_set)
      then have "map_of ys' z = None" using True by (simp add: map_of_eq_None_iff)
      ultimately show ?thesis by simp
    next
      case False
      have "map_of (x # xs) z = map_of (y # ys') z" by (simp only: Cons.prems(3) ys)
      then show ?thesis using False k by (cases x; cases y) (simp split: if_splits)
    qed
  qed
  then have "xs = ys'" using Cons.IH ks Cons.prems(2) by simp
  then show ?case using xy ys by simp
qed

lemma dict_merge_idem:
  assumes "distinct (map fst a)"
  shows "dict_merge (dict_merge a b) b = dict_merge a b"
proof (rule alist_eqI)
  show "map fst (dict_merge (dict_merge a b) b) = map fst (dict_merge a b)"
    by (rule keys_dict_merge_present) (rule keys_dict_merge_subset)
  show "distinct (map fst (dict_merge (dict_merge a b) b))"
    by (intro distinct_dict_merge assms)
  show "map_of (dict_merge (dict_merge a b) b) = map_of (dict_merge a b)"
    by (simp add: map_of_dict_merge fun_eq_iff map_add_def split: option.splits)
qed

lemma distinct_default_headers: "distinct (map fst default_headers)"
  by (simp add: default_headers_def)

text \<open>
  Claim C5. The headers used are the default headers overlaid with the caller's: for a
  caller's dictionary \<open>h\<close> (an association list with distinct keys) a key looks up the
  caller's value when the caller has one and the default otherwise; without caller headers
  they are the defaults; the merged headers have no duplicate key; defaults
  \<open>{A:1, B:2}\<close> merged with \<open>{B:3, C:4}\<close> give exactly \<open>{A:1, B:3, C:4}\<close>; and merging
  the same overrides a second time changes nothing.
\<close>

theorem header_merge:
  "(distinct (map fst h) \<longrightarrow>
      (\<forall>k. map_of (request_headers (Some h)) k =
           (case map_of h k of Some v \<Rightarrow> Some v | None \<Rightarrow> map_of default_headers k)))
   \<and> request_headers None = default_headers
   \<and> distinct (map fst (request_headers hs))
   \<and> dict_merge [(''A'', 1), (''B'', 2)] [(''B'', 3), (''C'', 4)]
       = [(''A'', 1::int), (''B'', 3), (''C'', 4)]
   \<and> dict_merge (request_headers (Some h)) h = request_headers (Some h)"
proof (intro conjI impI allI)
  fix k
  assume "distinct (map fst h)"
  then have "map_of (rev h) = map_of h" by (rule map_of_rev_distinct)
  then show "map_of (request_headers (Some h)) k =
      (case map_of h k of Some v \<Rightarrow> Some v | None \<Rightarrow> map_of default_headers k)"
    by (simp add: request_headers_def map_of_dict_merge map_add_def)
next
  show "request_headers None = default_headers"
    by (simp add: request_headers_def dict_merge_def)
next
  show "distinct (map fst (request_headers hs))"
    unfolding request_headers_def by (rule distinct_dict_merge) (rule distinct_default_headers)
next
  show "dict_merge [(''A'', 1), (''B'', 2)] [(''B'', 3), (''C'', 4)]
       = [(''A'', 1::int), (''B'', 3), (''C'', 4)]"
    by (simp add: dict_merge_def)
next
  show "dict_merge (request_headers (Some h)) h = request_headers (Some h)"
    unfolding request_headers_def option.case
    by (rule dict_merge_idem) (rule distinct_default_headers)
qed

text \<open>The caller overrides \<open>Accept\<close> and adds \<open>Referer\<close>; \<open>Connection\<close> keeps its default.\<close>

theorem header_merge_witness:
  "distinct (map fst [(''Accept'', ''x''), (''Referer'', ''r'')])
   \<and> map_of (request_headers (Some [(''Accept'', ''x''), (''Referer'', ''r'')])) ''Accept'' = Some ''x''
   \<and> map_of (request_headers (Some [(''Accept'', ''x''), (''Referer'', ''r'')])) ''Connection''
       = Some ''keep-alive''
   \<and> map_of (request_headers (Some [(''Accept'', ''x''), (''Referer'', ''r'')])) ''Referer'' = Some ''r''"
  using header_merge [of "[(''Accept'', ''x''), (''Referer'', ''r'')]" None]
  by (simp add: default_headers_def)

subsection \<open>Output path\<close>

lemma endswith_lower_mp4: "endswith (lower (s @ ''.mp4'')) ''.mp4''"
  by (simp add: endswith_def lower_def lower_char_def)

lemma endswith_lower_synthesized: "endswith (lower (''output_'' @ str now @ ''.mp4'')) ''.mp4''"
  using endswith_lower_mp4 [of "''output_'' @ str now"] by simp

lemma endswith_resolve_output: "endswith (lower (resolve_output now f)) ''.mp4''"
proof (cases f)
  case None
  then show ?thesis using endswith_lower_synthesized by (simp add: resolve_output_def)
next
  case (Some s)
  show ?thesis
  proof (cases "s = []")
    case True
    then show ?thesis using endswith_lower_synthesized Some by (simp add: resolve_output_def)
  next
    case False
    then show ?thesis
      using endswith_lower_mp4 [of s] Some by (simp add: resolve_output_def Let_def)
  qed
qed

text \<open>
  Claim C6. The resolved output path ends in \<open>.mp4\<close>, letter case aside: without an
  output file it is \<open>output_<timestamp>.mp4\<close>; a name without the suffix (compared in lower
  case) gets \<open>.mp4\<close> appended, so \<open>clip\<close> becomes \<open>clip.mp4\<close>; a name that has the suffix
  in any letter case is kept, so \<open>clip.MP4\<close> stays \<open>clip.MP4\<close>.
\<close>

theorem resolve_output_mp4:
  "endswith (lower (resolve_output now f)) ''.mp4''
   \<and> (f = None \<or> f = Some [] \<longrightarrow> resolve_output now f = ''output_'' @ str now @ ''.mp4'')
   \<and> (\<forall>s. f = Some s \<and> s \<noteq> [] \<and> \<not> endswith (lower s) ''.mp4''
          \<longrightarrow> resolve_output now f = s @ ''.mp4'')
   \<and> (\<forall>s. f = Some s \<and> s \<noteq> [] \<and> endswith (lower s) ''.mp4''
          \<longrightarrow> resolve_output now f = s)
   \<and> resolve_output now (Some ''clip'') = ''clip.mp4''
   \<and> resolve_output now (Some ''clip.MP4'') = ''clip.MP4''"
proof (intro conjI allI impI)
  show "endswith (lower (resolve_output now f)) ''.mp4''"
    by (rule endswith_resolve_output)
next
  note syn = endswith_lower_synthesized [of now]
  assume "f = None \<or> f = Some []"
  then show "resolve_output now f = ''output_'' @ str now @ ''.mp4''"
    using syn by (auto simp: resolve_output_def)
next
  fix s
  assume "f = Some s \<and> s \<noteq> [] \<and> \<not> endswith (lower s) ''.mp4''"
  then show "resolve_output now f = s @ ''.mp4''"
    by (simp add: resolve_output_def)
next
  fix s
  assume "f = Some s \<and> s \<noteq> [] \<and> endswith (lower s) ''.mp4''"
  then show "resolve_output now f = s"
    by (simp add: resolve_output_def)
next
  show "resolve_output now (Some ''clip'') = ''clip.mp4''"
    by (simp add: resolve_output_def endswith_def lower_def lower_char_def)
next
  show "resolve_output now (Some ''clip.MP4'') = ''clip.MP4''"
    by (simp add: resolve_output_def endswith_def lower_def lower_char_def)
qed

text \<open>A synthesised name, a kept name and an extended name.\<close>

theorem resolve_output_mp4_witness:
  "resolve_output 1700000000 None = ''output_1700000000.mp4''
   \<and> resolve_output 1700000000 (Some ''a.Mp4'') = ''a.Mp4''
   \<and> resolve_output 1700000000 (Some ''a.mkv'') = ''a.mkv.mp4''"
  using resolve_output_mp4 [of 1700000000 None]
    resolve_output_mp4 [of 1700000000 "Some ''a.Mp4''"]
    resolve_output_mp4 [of 1700000000 "Some ''a.mkv''"]
  by (simp add: str_def str_nat.simps endswith_def lower_def lower_char_def)

subsection \<open>What the primitives add to the trace\<close>

lemma trace_emit [simp]: "trace (emit e w) = trace w @ [e]"
  by (simp add: emit_def)

lemma files_emit [simp]: "files (emit e w) = files w"
  by (simp add: emit_def)

lemma trace_log [simp]: "trace (log m q cb w) = trace w @ log_events m q cb"
  by (simp add: log_def log_events_def Let_def)

lemma files_log [simp]: "files (log m q cb w) = files w"
  by (simp add: log_def Let_def)

lemma trace_relay [simp]: "trace (relay ls q w) = trace w @ relay_events ls q"
proof (induction ls arbitrary: w)
  case Nil
  show ?case by (simp add: relay_def relay_events_def)
next
  case (Cons l ls)
  have "relay (l # ls) q w = relay ls q (if \<not> q then emit (PrintLine (strip l)) w else w)"
    by (simp add: relay_def)
  then show ?case using Cons.IH by (simp add: relay_events_def)
qed

lemma files_relay [simp]: "files (relay ls q w) = files w"
proof (induction ls arbitrary: w)
  case Nil
  show ?case by (simp add: relay_def)
next
  case (Cons l ls)
  have "relay (l # ls) q w = relay ls q (if \<not> q then emit (PrintLine (strip l)) w else w)"
    by (simp add: relay_def)
  then show ?case using Cons.IH by simp
qed

lemma actions_append [simp]: "actions (a @ b) = actions a @ actions b"
  by (simp add: actions_def)

lemma actions_log_events [simp]: "actions (log_events m q cb) = []"
  by (simp add: actions_def log_events_def)

lemma actions_relay_events [simp]: "actions (relay_events ls q) = []"
  by (simp add: actions_def relay_events_def)

lemma actions_Nil [simp]: "actions [] = []"
  by (simp add: actions_def)

lemma actions_Spawn [simp]: "actions (Spawn c # tr) = Spawn c # actions tr"
  by (simp add: actions_def)

lemma actions_Sleep [simp]: "actions (Sleep d # tr) = Sleep d # actions tr"
  by (simp add: actions_def)

subsection \<open>One pass through the loop body\<close>

text \<open>How the pass ends depends on the process only through its success.\<close>

lemma attempt_body_control:
  "fst (attempt_body ev rq cmd out a w) =
     (if succeeded (outcome (tool ev (nat a) cmd)) then Return True
      else if a < retry rq \<and> retry_delay rq < 0
           then Raise ''sleep length must be non-negative''
           else Continue)"
  by (cases "outcome (tool ev (nat a) cmd)")
     (simp_all add: attempt_body_def on_exception_def sleep_def Let_def)

lemma attempt_body_actions:
  "actions (trace (snd (attempt_body ev rq cmd out a w))) =
     actions (trace w) @ Spawn cmd #
       (if \<not> succeeded (outcome (tool ev (nat a) cmd)) \<and> a < retry rq \<and> 0 \<le> retry_delay rq
        then [Sleep (retry_delay rq)] else [])"
  by (cases "outcome (tool ev (nat a) cmd)")
     (simp_all add: attempt_body_def on_exception_def sleep_def Let_def)

lemma attempt_body_files:
  "files (snd (attempt_body ev rq cmd out a w)) = effect (tool ev (nat a) cmd) (files w)"
  by (cases "outcome (tool ev (nat a) cmd)")
     (simp_all add: attempt_body_def on_exception_def sleep_def Let_def effect_def)


lemma succeeded_iff: "succeeded r \<longleftrightarrow> exit_code r = Some 0"
  by (cases r) auto

lemma spawns_actions: "spawns tr = filter is_Spawn (actions tr)"
  by (simp add: spawns_def actions_def conj_commute cong: conj_cong)

lemma sleeps_actions: "sleeps tr = filter is_Sleep (actions tr)"
  by (simp add: sleeps_def actions_def conj_commute cong: conj_cong)

subsection \<open>The loop\<close>

lemma retry_loop_Cons:
  "retry_loop ev rq cmd out (a # as) w =
     (if fst (attempt_body ev rq cmd out a w) = Continue
      then retry_loop ev rq cmd out as (snd (attempt_body ev rq cmd out a w))
      else attempt_body ev rq cmd out a w)"
  by (cases "attempt_body ev rq cmd out a w"; cases "fst (attempt_body ev rq cmd out a w)")
     auto

declare retry_loop.simps(2) [simp del]

lemma retry_loop_append:
  "retry_loop ev rq cmd out (xs @ ys) w =
     (if fst (retry_loop ev rq cmd out xs w) = Continue
      then retry_loop ev rq cmd out ys (snd (retry_loop ev rq cmd out xs w))
      else retry_loop ev rq cmd out xs w)"
proof (induction xs arbitrary: w)
  case Nil
  show ?case by simp
next
  case (Cons a xs)
  show ?case by (simp only: append_Cons retry_loop_Cons Cons.IH split: if_splits) simp
qed

lemma retry_loop_spawn_bound:
  "length (spawns (trace (snd (retry_loop ev rq cmd out as w))))
     \<le> length (spawns (trace w)) + length as"
proof (induction as arbitrary: w)
  case Nil
  show ?case by simp
next
  case (Cons a as)
  let ?w = "snd (attempt_body ev rq cmd out a w)"
  have one: "length (spawns (trace ?w)) = length (spawns (trace w)) + 1"
    by (simp add: spawns_actions attempt_body_actions)
  show ?case
  proof (cases "fst (attempt_body ev rq cmd out a w) = Continue")
    case True
    then show ?thesis using Cons.IH [of ?w] one by (simp add: retry_loop_Cons)
  next
    case False
    then show ?thesis using one by (simp add: retry_loop_Cons)
  qed
qed

lemma retry_loop_spawn_cmd:
  "set (spawns (trace (snd (retry_loop ev rq cmd out as w))))
     \<subseteq> set (spawns (trace w)) \<union> {Spawn cmd}"
proof (induction as arbitrary: w)
  case Nil
  show ?case by auto
next
  case (Cons a as)
  let ?w = "snd (attempt_body ev rq cmd out a w)"
  have one: "set (spawns (trace ?w)) \<subseteq> set (spawns (trace w)) \<union> {Spawn cmd}"
    by (auto simp: spawns_actions attempt_body_actions)
  show ?case
  proof (cases "fst (attempt_body ev rq cmd out a w) = Continue")
    case True
    then show ?thesis using Cons.IH [of ?w] one by (auto simp: retry_loop_Cons)
  next
    case False
    then show ?thesis using one by (simp add: retry_loop_Cons)
  qed
qed

text \<open>Every attempt of the list fails and no sleep raises: the loop runs to its end.\<close>

lemma retry_loop_all_fail:
  assumes "\<forall>a\<in>set as. \<not> succeeded (outcome (tool ev (nat a) cmd))"
    and "0 \<le> retry_delay rq"
  shows "fst (retry_loop ev rq cmd out as w) = Continue
    \<and> actions (trace (snd (retry_loop ev rq cmd out as w))) =
        actions (trace w) @
        concat (map (\<lambda>a. Spawn cmd # (if a < retry rq then [Sleep (retry_delay rq)] else []))
                  as)"
  using assms(1)
proof (induction as arbitrary: w)
  case Nil
  show ?case by simp
next
  case (Cons a as)
  let ?w = "snd (attempt_body ev rq cmd out a w)"
  have f: "\<not> succeeded (outcome (tool ev (nat a) cmd))" using Cons.prems by simp
  have c: "fst (attempt_body ev rq cmd out a w) = Continue"
    using f assms(2) by (simp add: attempt_body_control)
  have a: "actions (trace ?w) =
      actions (trace w) @ Spawn cmd # (if a < retry rq then [Sleep (retry_delay rq)] else [])"
    using f assms(2) by (simp add: attempt_body_actions)
  have "\<forall>a\<in>set as. \<not> succeeded (outcome (tool ev (nat a) cmd))" using Cons.prems by simp
  from Cons.IH [OF this, of ?w] show ?case using c a by (simp add: retry_loop_Cons)
qed

text \<open>A successful attempt ends the loop.\<close>

lemma retry_loop_success:
  assumes "succeeded (outcome (tool ev (nat a) cmd))"
  shows "fst (retry_loop ev rq cmd out (a # as) w) = Return True
    \<and> actions (trace (snd (retry_loop ev rq cmd out (a # as) w))) = actions (trace w) @ [Spawn cmd]"
  using assms by (simp add: retry_loop_Cons attempt_body_control attempt_body_actions)

text \<open>The loop never returns \<open>False\<close>.\<close>

lemma retry_loop_Return:
  "fst (retry_loop ev rq cmd out as w) = Return b \<Longrightarrow> b = True"
proof (induction as arbitrary: w)
  case Nil
  then show ?case by simp
next
  case (Cons a as)
  show ?case
  proof (cases "fst (attempt_body ev rq cmd out a w) = Continue")
    case True
    then show ?thesis using Cons by (simp add: retry_loop_Cons)
  next
    case False
    then show ?thesis using Cons.prems
      by (simp add: retry_loop_Cons attempt_body_control split: if_splits)
  qed
qed

text \<open>Without a negative delay the loop never raises.\<close>

lemma retry_loop_no_Raise:
  "0 \<le> retry_delay rq \<Longrightarrow> fst (retry_loop ev rq cmd out as w) \<noteq> Raise e"
proof (induction as arbitrary: w)
  case Nil
  show ?case by simp
next
  case (Cons a as)
  show ?case
  proof (cases "fst (attempt_body ev rq cmd out a w) = Continue")
    case True
    then show ?thesis using Cons by (simp add: retry_loop_Cons)
  next
    case False
    then show ?thesis using Cons.prems
      by (simp add: retry_loop_Cons attempt_body_control split: if_splits)
  qed
qed

subsection \<open>Attempts, results and sleeps\<close>


lemma range_nonpos: "n \<le> 0 \<Longrightarrow> range_py n = []"
  by (simp add: range_py_def)

lemma length_range: "length (range_py n) = nat n"
  by (simp add: range_py_def)

lemma path_exists_files [simp]: "path_exists \<lparr>files = fs, trace = tr\<rparr> p \<longleftrightarrow> fs p \<noteq> None"
  by (simp add: path_exists_def)

lemma spawns_log_events [simp]: "spawns (log_events m q cb) = []"
  by (simp add: spawns_def log_events_def)

lemma sleeps_log_events [simp]: "sleeps (log_events m q cb) = []"
  by (simp add: sleeps_def log_events_def)

lemma spawns_append [simp]: "spawns (a @ b) = spawns a @ spawns b"
  by (simp add: spawns_def)

lemma sleeps_append [simp]: "sleeps (a @ b) = sleeps a @ sleeps b"
  by (simp add: sleeps_def)

lemma spawns_Nil [simp]: "spawns [] = []"
  by (simp add: spawns_def)

lemma sleeps_Nil [simp]: "sleeps [] = []"
  by (simp add: sleeps_def)

subsection \<open>The whole call in terms of the loop\<close>

lemma download_m3u8_result:
  "fst (download_m3u8 ev rq w) =
     (if path_exists w (resolved_path ev rq) then Inr False
      else case fst (retry_loop ev rq (request_cmd ev rq) (resolved_path ev rq)
                       (range_py (retry rq + 1))
                       (log (StartDownload (url rq)) (quiet rq) (log_callback rq) w)) of
             Continue \<Rightarrow> Inr False
           | Return b \<Rightarrow> Inr b
           | Raise e \<Rightarrow> Inl e)"
  by (simp add: download_m3u8_def Let_def split: prod.splits control.splits)

lemma download_m3u8_actions:
  "actions (trace (snd (download_m3u8 ev rq w))) =
     (if path_exists w (resolved_path ev rq) then actions (trace w)
      else actions (trace (snd (retry_loop ev rq (request_cmd ev rq) (resolved_path ev rq)
                       (range_py (retry rq + 1))
                       (log (StartDownload (url rq)) (quiet rq) (log_callback rq) w)))))"
  by (simp add: download_m3u8_def Let_def split: prod.splits control.splits)

lemma range_split:
  "k < nat n \<Longrightarrow> range_py n = map int [0..<k] @ int k # map int [Suc k..<nat n]"
proof -
  assume "k < nat n"
  then have "[0..<nat n] = [0..<k] @ k # [Suc k..<nat n]"
    by (metis add_0 less_imp_add_positive upt_add_eq_append upt_conv_Cons zero_le)
  then show ?thesis by (simp add: range_py_def)
qed

lemma retry_loop_success_bound:
  assumes "succeeded (outcome (tool ev j cmd))"
  shows "length (spawns (trace (snd (retry_loop ev rq cmd out (range_py n) w))))
     \<le> length (spawns (trace w)) + j + 1"
proof (cases "j < nat n")
  case True
  let ?pre = "map int [0..<j]"
  let ?r = "retry_loop ev rq cmd out ?pre w"
  have pre: "length (spawns (trace (snd ?r))) \<le> length (spawns (trace w)) + j"
    using retry_loop_spawn_bound [of ev rq cmd out ?pre w] by simp
  have s: "succeeded (outcome (tool ev (nat (int j)) cmd))" using assms by simp
  show ?thesis
  proof (cases "fst ?r = Continue")
    case True
    have "spawns (trace (snd (retry_loop ev rq cmd out (int j # map int [Suc j..<nat n]) (snd ?r))))
        = spawns (trace (snd ?r)) @ [Spawn cmd]"
      using retry_loop_success [OF s, of rq out "map int [Suc j..<nat n]" "snd ?r"]
      by (simp add: spawns_actions)
    then show ?thesis using pre True \<open>j < nat n\<close>
      by (simp add: range_split retry_loop_append)
  next
    case False
    then show ?thesis using pre \<open>j < nat n\<close> by (simp add: range_split retry_loop_append)
  qed
next
  case False
  then show ?thesis
    using retry_loop_spawn_bound [of ev rq cmd out "range_py n" w] by (simp add: length_range)
qed

lemma spawn_bound_success:
  assumes "exit_code (outcome (tool ev j (request_cmd ev rq))) = Some 0"
  shows "length (spawns (trace (snd (download_m3u8 ev rq \<lparr>files = fs, trace = []\<rparr>))))
           \<le> j + 1"
proof -
  let ?w = "log (StartDownload (url rq)) (quiet rq) (log_callback rq) \<lparr>files = fs, trace = []\<rparr>"
  have w: "spawns (trace ?w) = []" by simp
  have "succeeded (outcome (tool ev j (request_cmd ev rq)))"
    using assms by (simp add: succeeded_iff)
  from retry_loop_success_bound [OF this, of rq "resolved_path ev rq" "retry rq + 1" ?w]
  show ?thesis using w by (simp add: spawns_actions download_m3u8_actions del: trace_log)
qed

text \<open>
  Claim C1. With \<open>retry = N \<ge> 0\<close> the tool is started at most \<open>N + 1\<close> times, and when
  the process of attempt \<open>j\<close> returns exit code 0 there are at most \<open>j + 1\<close> starts: a
  further start needs the one before it to have ended otherwise.
\<close>

theorem spawn_bound:
  assumes "0 \<le> retry rq"
  shows "int (length (spawns (trace (snd (download_m3u8 ev rq \<lparr>files = fs, trace = []\<rparr>)))))
           \<le> retry rq + 1
    \<and> (\<forall>j. exit_code (outcome (tool ev j (request_cmd ev rq))) = Some 0 \<longrightarrow>
           length (spawns (trace (snd (download_m3u8 ev rq \<lparr>files = fs, trace = []\<rparr>))))
             \<le> j + 1)"
proof (intro conjI allI impI)
  let ?w = "log (StartDownload (url rq)) (quiet rq) (log_callback rq) \<lparr>files = fs, trace = []\<rparr>"
  have w: "spawns (trace ?w) = []" by simp
  show "int (length (spawns (trace (snd (download_m3u8 ev rq \<lparr>files = fs, trace = []\<rparr>)))))
           \<le> retry rq + 1"
  proof (cases "fs (resolved_path ev rq) = None")
    case True
    have "length (spawns (trace (snd (download_m3u8 ev rq \<lparr>files = fs, trace = []\<rparr>))))
        \<le> nat (retry rq + 1)"
      using w True
        retry_loop_spawn_bound [of ev rq "request_cmd ev rq" "resolved_path ev rq"
          "range_py (retry rq + 1)" ?w]
      by (simp add: spawns_actions download_m3u8_actions length_range del: trace_log)
    then show ?thesis using assms by linarith
  next
    case False
    then show ?thesis using assms by (simp add: spawns_actions download_m3u8_actions)
  qed
next
  fix j
  assume "exit_code (outcome (tool ev j (request_cmd ev rq))) = Some 0"
  then show "length (spawns (trace (snd (download_m3u8 ev rq \<lparr>files = fs, trace = []\<rparr>))))
      \<le> j + 1"
    by (rule spawn_bound_success)
qed

text \<open>Two retries, the second attempt succeeds: at most two starts.\<close>

theorem spawn_bound_witness:
  "0 \<le> retry (example_request 2)
   \<and> exit_code (outcome (tool (stub_tool (\<lambda>k. Exited [] (if k = 1 then 0 else 1))) 1
        (request_cmd (stub_tool (\<lambda>k. Exited [] (if k = 1 then 0 else 1))) (example_request 2))))
       = Some 0
   \<and> length (spawns (trace (snd (download_m3u8
        (stub_tool (\<lambda>k. Exited [] (if k = 1 then 0 else 1))) (example_request 2)
        \<lparr>files = Map.empty, trace = []\<rparr>)))) \<le> 2"
proof -
  let ?ev = "stub_tool (\<lambda>k. Exited [] (if k = 1 then 0 else 1))"
  have r: "0 \<le> retry (example_request 2)" by (simp add: example_request_def)
  have e: "exit_code (outcome (tool ?ev 1 (request_cmd ?ev (example_request 2)))) = Some 0"
    by (simp add: stub_tool_def)
  show ?thesis
    using r e spawn_bound [OF r, of ?ev Map.empty, THEN conjunct2, rule_format, OF e] by simp
qed

lemma retry_loop_member_success:
  assumes "a \<in> set as" and "succeeded (outcome (tool ev (nat a) cmd))"
    and "0 \<le> retry_delay rq"
  shows "fst (retry_loop ev rq cmd out as w) = Return True"
  using assms(1)
proof (induction as arbitrary: w)
  case Nil
  then show ?case by simp
next
  case (Cons x xs)
  show ?case
  proof (cases "succeeded (outcome (tool ev (nat x) cmd))")
    case True
    then show ?thesis by (simp add: retry_loop_Cons attempt_body_control)
  next
    case False
    then have "a \<in> set xs" using Cons.prems assms(2) by auto
    then show ?thesis
      using Cons.IH False assms(3) by (simp add: retry_loop_Cons attempt_body_control)
  qed
qed

lemma retry_loop_Return_last:
  "fst (retry_loop ev rq cmd out as w) = Return b \<Longrightarrow>
     \<exists>pre. actions (trace (snd (retry_loop ev rq cmd out as w))) = pre @ [Spawn cmd]"
proof (induction as arbitrary: w)
  case Nil
  then show ?case by simp
next
  case (Cons x xs)
  show ?case
  proof (cases "fst (attempt_body ev rq cmd out x w) = Continue")
    case True
    then show ?thesis using Cons by (simp add: retry_loop_Cons)
  next
    case False
    then have "succeeded (outcome (tool ev (nat x) cmd))"
      using Cons.prems by (simp add: retry_loop_Cons attempt_body_control split: if_splits)
    then show ?thesis using False by (simp add: retry_loop_Cons attempt_body_actions)
  qed
qed

lemma failed_attempts_actions:
  "\<forall>a\<in>set as. a < r \<Longrightarrow>
     concat (map (\<lambda>a. Spawn cmd # (if a < r then [Sleep d] else [])) as) =
     concat (replicate (length as) [Spawn cmd, Sleep d])"
  by (induction as) auto

text \<open>
  Claim C2. When the process of attempt \<open>k \<le> retry\<close> returns exit code 0 (the output
  path being free, so that attempts are made, and the delay not negative),
  \<^verbatim>\<open>download_m3u8\<close> returns \<open>True\<close>, the tool has been started at most \<open>k + 1\<close> times and
  the last thing the run did, logging aside, was to start a process: no sleep and no
  further attempt follows the success. When \<open>k\<close> is the first attempt to succeed the run
  is exactly \<open>k\<close> failed attempts, each followed by a sleep, and the successful one.
\<close>

theorem success_returns_true:
  assumes free: "fs (resolved_path ev rq) = None"
    and k: "int k \<le> retry rq"
    and delay: "0 \<le> retry_delay rq"
    and ok: "exit_code (outcome (tool ev k (request_cmd ev rq))) = Some 0"
  shows "fst (download_m3u8 ev rq \<lparr>files = fs, trace = []\<rparr>) = Inr True
    \<and> length (spawns (trace (snd (download_m3u8 ev rq \<lparr>files = fs, trace = []\<rparr>)))) \<le> k + 1
    \<and> (\<exists>pre. actions (trace (snd (download_m3u8 ev rq \<lparr>files = fs, trace = []\<rparr>)))
               = pre @ [Spawn (request_cmd ev rq)])
    \<and> ((\<forall>j<k. exit_code (outcome (tool ev j (request_cmd ev rq))) \<noteq> Some 0) \<longrightarrow>
         actions (trace (snd (download_m3u8 ev rq \<lparr>files = fs, trace = []\<rparr>))) =
           concat (replicate k [Spawn (request_cmd ev rq), Sleep (retry_delay rq)])
           @ [Spawn (request_cmd ev rq)])"
proof -
  let ?w = "log (StartDownload (url rq)) (quiet rq) (log_callback rq) \<lparr>files = fs, trace = []\<rparr>"
  let ?cmd = "request_cmd ev rq"
  let ?run = "retry_loop ev rq ?cmd (resolved_path ev rq) (range_py (retry rq + 1)) ?w"
  have s: "succeeded (outcome (tool ev (nat (int k)) ?cmd))" using ok by (simp add: succeeded_iff)
  have lt: "k < nat (retry rq + 1)" using k by linarith
  then have mem: "int k \<in> set (range_py (retry rq + 1))" by (simp add: range_py_def)
  have ret: "fst ?run = Return True"
    using retry_loop_member_success [OF mem s delay] .
  have act: "actions (trace (snd (download_m3u8 ev rq \<lparr>files = fs, trace = []\<rparr>)))
      = actions (trace (snd ?run))"
    using free by (simp add: download_m3u8_actions del: trace_log)
  have w: "actions (trace ?w) = []" by simp
  have 1: "fst (download_m3u8 ev rq \<lparr>files = fs, trace = []\<rparr>) = Inr True"
    using free ret by (simp add: download_m3u8_result del: trace_log)
  have 2: "length (spawns (trace (snd (download_m3u8 ev rq \<lparr>files = fs, trace = []\<rparr>)))) \<le> k + 1"
    using spawn_bound_success [of ev k rq fs] ok by simp
  have 3: "\<exists>pre. actions (trace (snd (download_m3u8 ev rq \<lparr>files = fs, trace = []\<rparr>)))
               = pre @ [Spawn ?cmd]"
    using retry_loop_Return_last [OF ret] act by simp
  have 4: "actions (trace (snd (download_m3u8 ev rq \<lparr>files = fs, trace = []\<rparr>))) =
           concat (replicate k [Spawn ?cmd, Sleep (retry_delay rq)]) @ [Spawn ?cmd]"
    if first: "\<forall>j<k. exit_code (outcome (tool ev j ?cmd)) \<noteq> Some 0"
  proof -
    let ?pre = "map int [0..<k]"
    let ?post = "map int [Suc k..<nat (retry rq + 1)]"
    have fail: "\<forall>a\<in>set ?pre. \<not> succeeded (outcome (tool ev (nat a) ?cmd))"
      using first by (auto simp: succeeded_iff)
    have small: "\<forall>a\<in>set ?pre. a < retry rq" using k by auto
    note pre = retry_loop_all_fail [OF fail delay, of "resolved_path ev rq" ?w]
    have "actions (trace (snd ?run)) =
        actions (trace (snd (retry_loop ev rq ?cmd (resolved_path ev rq) ?pre ?w))) @ [Spawn ?cmd]"
      using pre retry_loop_success [OF s, of rq "resolved_path ev rq" ?post]
      by (simp add: range_split [OF lt] retry_loop_append del: trace_log)
    then show ?thesis
      using pre w act failed_attempts_actions [OF small, of ?cmd "retry_delay rq"]
      by (simp del: trace_log)
  qed
  show ?thesis using 1 2 3 4 by blast
qed

text \<open>Two retries, the second attempt is the first to succeed: start, sleep, start.\<close>

theorem success_returns_true_witness:
  "int 1 \<le> retry (example_request 2) \<and> 0 \<le> retry_delay (example_request 2)
   \<and> fst (download_m3u8 (stub_tool (\<lambda>k. Exited [] (if k = 1 then 0 else 1))) (example_request 2)
            \<lparr>files = Map.empty, trace = []\<rparr>) = Inr True
   \<and> actions (trace (snd (download_m3u8
        (stub_tool (\<lambda>k. Exited [] (if k = 1 then 0 else 1))) (example_request 2)
        \<lparr>files = Map.empty, trace = []\<rparr>))) =
       [Spawn (request_cmd (stub_tool (\<lambda>k. Exited [] (if k = 1 then 0 else 1))) (example_request 2)),
        Sleep 5,
        Spawn (request_cmd (stub_tool (\<lambda>k. Exited [] (if k = 1 then 0 else 1))) (example_request 2))]"
proof -
  let ?ev = "stub_tool (\<lambda>k. Exited [] (if k = 1 then 0 else 1))"
  have k: "int 1 \<le> retry (example_request 2)" by (simp add: example_request_def)
  have d: "0 \<le> retry_delay (example_request 2)" by (simp add: example_request_def)
  have e: "exit_code (outcome (tool ?ev 1 (request_cmd ?ev (example_request 2)))) = Some 0"
    by (simp add: stub_tool_def)
  have first: "\<forall>j<1. exit_code (outcome (tool ?ev j (request_cmd ?ev (example_request 2)))) \<noteq> Some 0"
    by (simp add: stub_tool_def)
  have rd: "retry_delay (example_request 2) = 5" by (simp add: example_request_def)
  show ?thesis
    using k d e first success_returns_true [of Map.empty ?ev "example_request 2" 1]
    by (simp add: rd)
qed

lemma sleeps_retries:
  "filter is_Sleep (concat (replicate n [Spawn c, Sleep d]) @ [Spawn c]) = replicate n (Sleep d)"
  by (induction n) auto

text \<open>
  Claim C3. With \<open>retry = N \<ge> 0\<close> (the output path free and the delay not negative),
  when the process of every attempt from 0 to \<open>N\<close> returns a non-zero exit code,
  \<^verbatim>\<open>download_m3u8\<close> returns \<open>False\<close> and sleeps \<open>retry_delay\<close> seconds exactly \<open>N\<close> times:
  the run is \<open>N\<close> times a start followed by a sleep, and then the last start with no
  sleep after it.
\<close>

theorem all_fail_returns_false:
  assumes free: "fs (resolved_path ev rq) = None"
    and N: "0 \<le> retry rq"
    and delay: "0 \<le> retry_delay rq"
    and fail: "\<forall>k \<le> nat (retry rq).
        \<exists>rc. exit_code (outcome (tool ev k (request_cmd ev rq))) = Some rc \<and> rc \<noteq> 0"
  shows "fst (download_m3u8 ev rq \<lparr>files = fs, trace = []\<rparr>) = Inr False
    \<and> sleeps (trace (snd (download_m3u8 ev rq \<lparr>files = fs, trace = []\<rparr>))) =
        replicate (nat (retry rq)) (Sleep (retry_delay rq))
    \<and> actions (trace (snd (download_m3u8 ev rq \<lparr>files = fs, trace = []\<rparr>))) =
        concat (replicate (nat (retry rq)) [Spawn (request_cmd ev rq), Sleep (retry_delay rq)])
        @ [Spawn (request_cmd ev rq)]"
proof -
  let ?w = "log (StartDownload (url rq)) (quiet rq) (log_callback rq) \<lparr>files = fs, trace = []\<rparr>"
  let ?cmd = "request_cmd ev rq"
  let ?n = "nat (retry rq)"
  let ?run = "retry_loop ev rq ?cmd (resolved_path ev rq) (range_py (retry rq + 1)) ?w"
  let ?f = "\<lambda>a. Spawn ?cmd # (if a < retry rq then [Sleep (retry_delay rq)] else [])"
  have split: "range_py (retry rq + 1) = map int [0..<?n] @ [retry rq]"
    using N range_split [of ?n "retry rq + 1"] by (simp add: nat_add_distrib)
  have f: "\<forall>a\<in>set (range_py (retry rq + 1)). \<not> succeeded (outcome (tool ev (nat a) ?cmd))"
  proof
    fix a
    assume "a \<in> set (range_py (retry rq + 1))"
    then have "nat a \<le> ?n" using N by (auto simp: range_py_def)
    then obtain rc where "exit_code (outcome (tool ev (nat a) ?cmd)) = Some rc" "rc \<noteq> 0"
      using fail by blast
    then show "\<not> succeeded (outcome (tool ev (nat a) ?cmd))" by (simp add: succeeded_iff)
  qed
  note run = retry_loop_all_fail [OF f delay, of "resolved_path ev rq" ?w]
  have w: "actions (trace ?w) = []" by simp
  have small: "\<forall>a\<in>set (map int [0..<?n]). a < retry rq" using N by auto
  have "concat (map ?f (range_py (retry rq + 1))) =
      concat (replicate ?n [Spawn ?cmd, Sleep (retry_delay rq)]) @ [Spawn ?cmd]"
    using failed_attempts_actions [OF small, of ?cmd "retry_delay rq"] by (simp add: split)
  then have act: "actions (trace (snd ?run)) =
      concat (replicate ?n [Spawn ?cmd, Sleep (retry_delay rq)]) @ [Spawn ?cmd]"
    using run w by (simp del: trace_log)
  have res: "fst (download_m3u8 ev rq \<lparr>files = fs, trace = []\<rparr>) = Inr False"
    using free run by (simp add: download_m3u8_result del: trace_log)
  have act': "actions (trace (snd (download_m3u8 ev rq \<lparr>files = fs, trace = []\<rparr>))) =
      concat (replicate ?n [Spawn ?cmd, Sleep (retry_delay rq)]) @ [Spawn ?cmd]"
    using free act by (simp add: download_m3u8_actions del: trace_log)
  have "sleeps (trace (snd (download_m3u8 ev rq \<lparr>files = fs, trace = []\<rparr>))) =
      replicate ?n (Sleep (retry_delay rq))"
    by (simp only: sleeps_actions act' sleeps_retries)
  then show ?thesis using res act' by simp
qed

text \<open>Two retries, every attempt exits with 1: the function sleeps twice.\<close>

theorem all_fail_returns_false_witness:
  "0 \<le> retry (example_request 2) \<and> 0 \<le> retry_delay (example_request 2)
   \<and> fst (download_m3u8 (stub_tool (\<lambda>k. Exited [] 1)) (example_request 2)
            \<lparr>files = Map.empty, trace = []\<rparr>) = Inr False
   \<and> sleeps (trace (snd (download_m3u8 (stub_tool (\<lambda>k. Exited [] 1)) (example_request 2)
            \<lparr>files = Map.empty, trace = []\<rparr>))) = [Sleep 5, Sleep 5]"
proof -
  let ?ev = "stub_tool (\<lambda>k. Exited [] 1)"
  have n: "0 \<le> retry (example_request 2)" by (simp add: example_request_def)
  have d: "0 \<le> retry_delay (example_request 2)" by (simp add: example_request_def)
  have fail: "\<forall>k \<le> nat (retry (example_request 2)).
      \<exists>rc. exit_code (outcome (tool ?ev k (request_cmd ?ev (example_request 2)))) = Some rc \<and> rc \<noteq> 0"
    by (simp add: stub_tool_def)
  have v: "retry_delay (example_request 2) = 5" "nat (retry (example_request 2)) = Suc (Suc 0)"
    by (simp_all add: example_request_def)
  show ?thesis
    using n d fail all_fail_returns_false [of Map.empty ?ev "example_request 2"]
    by (simp add: v)
qed

text \<open>
  Claim C4. When a file exists at the resolved output path, \<^verbatim>\<open>download_m3u8\<close> returns
  \<open>False\<close>; it only logs that the file exists: no process is started, nothing sleeps, and
  the files are as they were.
\<close>

theorem existing_output_rejected:
  assumes "fs (resolved_path ev rq) \<noteq> None"
  shows "fst (download_m3u8 ev rq \<lparr>files = fs, trace = []\<rparr>) = Inr False
    \<and> files (snd (download_m3u8 ev rq \<lparr>files = fs, trace = []\<rparr>)) = fs
    \<and> trace (snd (download_m3u8 ev rq \<lparr>files = fs, trace = []\<rparr>)) =
        log_events (FileExists (resolved_path ev rq)) (quiet rq) (log_callback rq)
    \<and> spawns (trace (snd (download_m3u8 ev rq \<lparr>files = fs, trace = []\<rparr>))) = []
    \<and> sleeps (trace (snd (download_m3u8 ev rq \<lparr>files = fs, trace = []\<rparr>))) = []"
  using assms by (simp add: download_m3u8_def Let_def)

text \<open>The scenario request when \<open>t1.mp4\<close> exists.\<close>

theorem existing_output_rejected_witness:
  "[''t1.mp4'' \<mapsto> ''old''] (resolved_path (stub_tool (\<lambda>k. Exited [] 0)) (example_request 3)) \<noteq> None
   \<and> fst (download_m3u8 (stub_tool (\<lambda>k. Exited [] 0)) (example_request 3)
            \<lparr>files = [''t1.mp4'' \<mapsto> ''old''], trace = []\<rparr>) = Inr False
   \<and> files (snd (download_m3u8 (stub_tool (\<lambda>k. Exited [] 0)) (example_request 3)
            \<lparr>files = [''t1.mp4'' \<mapsto> ''old''], trace = []\<rparr>)) = [''t1.mp4'' \<mapsto> ''old'']
   \<and> spawns (trace (snd (download_m3u8 (stub_tool (\<lambda>k. Exited [] 0)) (example_request 3)
            \<lparr>files = [''t1.mp4'' \<mapsto> ''old''], trace = []\<rparr>))) = []"
proof -
  have p: "resolved_path (stub_tool (\<lambda>k. Exited [] 0)) (example_request 3) = ''t1.mp4''"
    by (simp add: resolved_path_def resolve_output_def example_request_def stub_tool_def
        endswith_def lower_def lower_char_def)
  have h: "[''t1.mp4'' \<mapsto> ''old''] (resolved_path (stub_tool (\<lambda>k. Exited [] 0)) (example_request 3))
      \<noteq> None"
    by (simp add: p)
  show ?thesis
    using h existing_output_rejected [of "[''t1.mp4'' \<mapsto> ''old'']"
        "stub_tool (\<lambda>k. Exited [] 0)" "example_request 3"]
    by simp
qed

text \<open>
  Claim C10. With \<open>retry < 0\<close> and a free output path, \<^verbatim>\<open>download_m3u8\<close> makes no
  attempt: it logs the start and the max-retries message and nothing else, starts no
  process, does not sleep, and returns \<open>False\<close>.
\<close>

theorem negative_retry_no_attempt:
  assumes "retry rq < 0" and "fs (resolved_path ev rq) = None"
  shows "fst (download_m3u8 ev rq \<lparr>files = fs, trace = []\<rparr>) = Inr False
    \<and> trace (snd (download_m3u8 ev rq \<lparr>files = fs, trace = []\<rparr>)) =
        log_events (StartDownload (url rq)) (quiet rq) (log_callback rq) @
        log_events MaxRetries (quiet rq) (log_callback rq)
    \<and> spawns (trace (snd (download_m3u8 ev rq \<lparr>files = fs, trace = []\<rparr>))) = []
    \<and> sleeps (trace (snd (download_m3u8 ev rq \<lparr>files = fs, trace = []\<rparr>))) = []
    \<and> files (snd (download_m3u8 ev rq \<lparr>files = fs, trace = []\<rparr>)) = fs"
proof -
  have "range_py (retry rq + 1) = []" using assms(1) by (simp add: range_nonpos)
  then show ?thesis using assms(2) by (simp add: download_m3u8_def Let_def)
qed

text \<open>The scenario request with \<open>retry = -1\<close>.\<close>

theorem negative_retry_no_attempt_witness:
  "retry (example_request (- 1)) < 0
   \<and> fst (download_m3u8 (stub_tool (\<lambda>k. Exited [] 0)) (example_request (- 1))
            \<lparr>files = Map.empty, trace = []\<rparr>) = Inr False
   \<and> trace (snd (download_m3u8 (stub_tool (\<lambda>k. Exited [] 0)) (example_request (- 1))
            \<lparr>files = Map.empty, trace = []\<rparr>)) =
       [PrintMsg (StartDownload ''http://x/a.m3u8''), CallbackMsg (StartDownload ''http://x/a.m3u8''),
        PrintMsg MaxRetries, CallbackMsg MaxRetries]"
proof -
  have r: "retry (example_request (- 1)) < 0" by (simp add: example_request_def)
  show ?thesis
    using r negative_retry_no_attempt [of "example_request (- 1)" Map.empty
        "stub_tool (\<lambda>k. Exited [] 0)"]
    by (simp add: log_events_def example_request_def)
qed


subsection \<open>The argument vector\<close>

lemma headers_str_crlf_joined: "hs \<noteq> [] \<Longrightarrow> headers_str hs = crlf_joined hs @ CRLF"
proof (induction hs rule: induct_list012)
  case 1
  then show ?case by simp
next
  case (2 x)
  show ?case by (cases x) (simp add: headers_str_def crlf_joined_def)
next
  case (3 x y zs)
  have "headers_str (y # zs) = crlf_joined (y # zs) @ CRLF" using 3 by simp
  then show ?case by (cases x) (simp add: headers_str_def crlf_joined_def)
qed

lemma request_headers_not_Nil: "request_headers hs \<noteq> []"
proof -
  have "fst ` set default_headers \<subseteq> fst ` set (request_headers hs)"
  proof -
    have "dom (map_of default_headers) \<subseteq> dom (map_of (request_headers hs))"
      by (simp add: request_headers_def map_of_dict_merge)
    then show ?thesis by (simp add: dom_map_of_conv_image_fst)
  qed
  then show ?thesis by (auto simp: default_headers_def)
qed

lemma request_cmd_eq:
  "request_cmd ev rq =
     [ffmpeg_path rq,
      ''-headers'', crlf_joined (request_headers (headers rq)) @ CRLF,
      ''-i'', url rq,
      ''-c'', ''copy'',
      ''-bsf:a'', ''aac_adtstoasc'',
      ''-timeout'', str (timeout rq),
      resolved_path ev rq]"
  by (simp add: request_cmd_def build_cmd_def headers_str_crlf_joined request_headers_not_Nil)

lemma request_cmd_not_spec: "request_cmd ev rq \<noteq> spec_cmd ev rq"
  by (simp add: request_cmd_eq spec_cmd_def CRLF_def)

lemma download_m3u8_spawns:
  "set (spawns (trace (snd (download_m3u8 ev rq \<lparr>files = fs, trace = []\<rparr>))))
     \<subseteq> {Spawn (request_cmd ev rq)}"
proof (cases "fs (resolved_path ev rq) = None")
  case True
  let ?w = "log (StartDownload (url rq)) (quiet rq) (log_callback rq) \<lparr>files = fs, trace = []\<rparr>"
  have w: "spawns (trace ?w) = []" by simp
  show ?thesis
    using True w retry_loop_spawn_cmd [of ev rq "request_cmd ev rq" "resolved_path ev rq"
        "range_py (retry rq + 1)" ?w]
    by (simp add: spawns_actions download_m3u8_actions del: trace_log)
next
  case False
  then show ?thesis by (simp add: spawns_actions download_m3u8_actions)
qed

text \<open>A run whose first attempt succeeds starts the tool once.\<close>

lemma first_attempt_succeeds:
  assumes "fs (resolved_path ev rq) = None" and "0 \<le> retry rq"
    and "succeeded (outcome (tool ev 0 (request_cmd ev rq)))"
  shows "spawns (trace (snd (download_m3u8 ev rq \<lparr>files = fs, trace = []\<rparr>)))
    = [Spawn (request_cmd ev rq)]"
proof -
  let ?w = "log (StartDownload (url rq)) (quiet rq) (log_callback rq) \<lparr>files = fs, trace = []\<rparr>"
  have w: "actions (trace ?w) = []" by simp
  have r: "range_py (retry rq + 1) = 0 # map int [Suc 0..<nat (retry rq + 1)]"
    using assms(2) range_split [of 0 "retry rq + 1"] by simp
  have s: "succeeded (outcome (tool ev (nat 0) (request_cmd ev rq)))" using assms(3) by simp
  show ?thesis
    using assms(1) w retry_loop_success [OF s, of rq "resolved_path ev rq" _ ?w]
    by (simp add: spawns_actions download_m3u8_actions r del: trace_log)
qed

text \<open>
  Claim C7, as stated: the tool is started with the argument vector whose header block
  is the CRLF-joined serialisation of the merged headers. In the scenario of the
  specification with a tool that exits with 0 the tool is started, and not with that
  vector.
\<close>

theorem spec_cmd_counterexample:
  "spawns (trace (snd (download_m3u8 (always_exit 0) (example_request 0)
       \<lparr>files = Map.empty, trace = []\<rparr>))) \<noteq> []
   \<and> Spawn (spec_cmd (always_exit 0) (example_request 0))
       \<notin> set (spawns (trace (snd (download_m3u8 (always_exit 0) (example_request 0)
            \<lparr>files = Map.empty, trace = []\<rparr>))))"
proof -
  have "spawns (trace (snd (download_m3u8 (always_exit 0) (example_request 0)
       \<lparr>files = Map.empty, trace = []\<rparr>)))
    = [Spawn (request_cmd (always_exit 0) (example_request 0))]"
    by (rule first_attempt_succeeds)
       (simp_all add: example_request_def always_exit_def stub_tool_def)
  then show ?thesis using request_cmd_not_spec [of "always_exit 0" "example_request 0"] by simp
qed

text \<open>
  Claim C7, amended. Every start of the tool has the argument vector
  \<open><tool> -headers <block> -i <url> -c copy -bsf:a aac_adtstoasc -timeout <seconds> <path>\<close>
  where the block is the CRLF-joined serialisation of the merged headers followed by one
  more CRLF: every \<open>Key: Value\<close> pair, the last one too, is terminated by CRLF.
\<close>

theorem spawned_argv:
  "set (spawns (trace (snd (download_m3u8 ev rq \<lparr>files = fs, trace = []\<rparr>))))
     \<subseteq> {Spawn [ffmpeg_path rq,
                ''-headers'', crlf_joined (request_headers (headers rq)) @ CRLF,
                ''-i'', url rq,
                ''-c'', ''copy'',
                ''-bsf:a'', ''aac_adtstoasc'',
                ''-timeout'', str (timeout rq),
                resolved_path ev rq]}
   \<and> crlf_joined (request_headers (headers rq)) @ CRLF =
       concat (map (\<lambda>(k, v). k @ '': '' @ v @ CRLF) (request_headers (headers rq)))"
proof
  show "set (spawns (trace (snd (download_m3u8 ev rq \<lparr>files = fs, trace = []\<rparr>))))
     \<subseteq> {Spawn [ffmpeg_path rq,
                ''-headers'', crlf_joined (request_headers (headers rq)) @ CRLF,
                ''-i'', url rq,
                ''-c'', ''copy'',
                ''-bsf:a'', ''aac_adtstoasc'',
                ''-timeout'', str (timeout rq),
                resolved_path ev rq]}"
    using download_m3u8_spawns [of ev rq fs] by (simp only: request_cmd_eq)
  show "crlf_joined (request_headers (headers rq)) @ CRLF =
       concat (map (\<lambda>(k, v). k @ '': '' @ v @ CRLF) (request_headers (headers rq)))"
    using headers_str_crlf_joined [OF request_headers_not_Nil, of "headers rq"]
    by (simp add: headers_str_def)
qed

text \<open>The scenario with a tool that exits with 0: one start, with this vector.\<close>

theorem spawned_argv_witness:
  "spawns (trace (snd (download_m3u8 (always_exit 0) (example_request 0)
       \<lparr>files = Map.empty, trace = []\<rparr>)))
     = [Spawn [''ffmpeg'', ''-headers'', crlf_joined default_headers @ CRLF,
               ''-i'', ''http://x/a.m3u8'', ''-c'', ''copy'', ''-bsf:a'', ''aac_adtstoasc'',
               ''-timeout'', ''600'', ''t1.mp4'']]"
proof -
  let ?run = "spawns (trace (snd (download_m3u8 (always_exit 0) (example_request 0)
       \<lparr>files = Map.empty, trace = []\<rparr>)))"
  have one: "?run = [Spawn (request_cmd (always_exit 0) (example_request 0))]"
    by (rule first_attempt_succeeds)
       (simp_all add: example_request_def always_exit_def stub_tool_def)
  have p: "resolved_path (always_exit 0) (example_request 0) = ''t1.mp4''"
    by (simp add: resolved_path_def resolve_output_def example_request_def always_exit_def
        stub_tool_def endswith_def lower_def lower_char_def)
  have t: "str 600 = ''600''" by (simp add: str_def str_nat.simps)
  have h: "request_headers None = default_headers"
    by (simp add: request_headers_def dict_merge_def)
  have v: "ffmpeg_path (example_request 0) = ''ffmpeg''" "url (example_request 0) = ''http://x/a.m3u8''"
    "timeout (example_request 0) = 600" "headers (example_request 0) = None"
    by (simp_all add: example_request_def)
  show ?thesis
    using one spawned_argv [of "always_exit 0" "example_request 0" Map.empty]
    by (simp add: p t h v)
qed


subsection \<open>The quiet flag\<close>

lemma without_console_append [simp]:
  "without_console (a @ b) = without_console a @ without_console b"
  by (simp add: without_console_def)

lemma without_console_log_events [simp]:
  "without_console (log_events m q cb) = log_events m True cb"
  by (simp add: without_console_def log_events_def)

lemma without_console_relay_events [simp]: "without_console (relay_events ls q) = []"
  by (simp add: without_console_def relay_events_def)

lemma relay_events_quiet [simp]: "relay_events ls True = []"
  by (simp add: relay_events_def)

lemma without_console_Cons [simp]:
  "without_console (Spawn c # tr) = Spawn c # without_console tr"
  "without_console (Sleep d # tr) = Sleep d # without_console tr"
  "without_console [] = []"
  by (simp_all add: without_console_def)

lemma callback_messages_without_console:
  "callback_messages (without_console tr) = callback_messages tr"
proof (induction tr)
  case Nil
  show ?case by (simp add: callback_messages_def)
next
  case (Cons e tr)
  then show ?case by (cases e) (simp_all add: callback_messages_def without_console_def)
qed

lemma console_free_without_console: "\<forall>e\<in>set (without_console tr). \<not> is_console e"
  by (simp add: without_console_def)

text \<open>
  The quiet pass through the body, from a world with the same files and the trace without
  its console events, ends as the other does and leaves such a world again.
\<close>

lemma attempt_body_quiet:
  assumes "files w' = files w" and "trace w' = without_console (trace w)"
  shows "fst (attempt_body ev (rq\<lparr>quiet := True\<rparr>) cmd out a w')
           = fst (attempt_body ev rq cmd out a w)
    \<and> files (snd (attempt_body ev (rq\<lparr>quiet := True\<rparr>) cmd out a w'))
           = files (snd (attempt_body ev rq cmd out a w))
    \<and> trace (snd (attempt_body ev (rq\<lparr>quiet := True\<rparr>) cmd out a w'))
           = without_console (trace (snd (attempt_body ev rq cmd out a w)))"
  using assms
  by (cases "outcome (tool ev (nat a) cmd)")
     (simp_all add: attempt_body_def on_exception_def sleep_def Let_def)

lemma retry_loop_quiet:
  assumes "files w' = files w" and "trace w' = without_console (trace w)"
  shows "fst (retry_loop ev (rq\<lparr>quiet := True\<rparr>) cmd out as w')
           = fst (retry_loop ev rq cmd out as w)
    \<and> files (snd (retry_loop ev (rq\<lparr>quiet := True\<rparr>) cmd out as w'))
           = files (snd (retry_loop ev rq cmd out as w))
    \<and> trace (snd (retry_loop ev (rq\<lparr>quiet := True\<rparr>) cmd out as w'))
           = without_console (trace (snd (retry_loop ev rq cmd out as w)))"
  using assms
proof (induction as arbitrary: w w')
  case Nil
  then show ?case by simp
next
  case (Cons a as)
  note b = attempt_body_quiet [OF Cons.prems, of ev rq cmd out a]
  show ?case
  proof (cases "fst (attempt_body ev rq cmd out a w) = Continue")
    case True
    then show ?thesis
      using b Cons.IH [of "snd (attempt_body ev (rq\<lparr>quiet := True\<rparr>) cmd out a w')"
          "snd (attempt_body ev rq cmd out a w)"]
      by (simp add: retry_loop_Cons)
  next
    case False
    then show ?thesis using b by (simp add: retry_loop_Cons)
  qed
qed

lemma download_m3u8_quiet:
  "fst (download_m3u8 ev (rq\<lparr>quiet := True\<rparr>) \<lparr>files = fs, trace = []\<rparr>)
     = fst (download_m3u8 ev rq \<lparr>files = fs, trace = []\<rparr>)
   \<and> files (snd (download_m3u8 ev (rq\<lparr>quiet := True\<rparr>) \<lparr>files = fs, trace = []\<rparr>))
     = files (snd (download_m3u8 ev rq \<lparr>files = fs, trace = []\<rparr>))
   \<and> trace (snd (download_m3u8 ev (rq\<lparr>quiet := True\<rparr>) \<lparr>files = fs, trace = []\<rparr>))
     = without_console (trace (snd (download_m3u8 ev rq \<lparr>files = fs, trace = []\<rparr>)))"
proof -
  let ?q = "rq\<lparr>quiet := True\<rparr>"
  let ?w = "log (StartDownload (url rq)) (quiet rq) (log_callback rq) \<lparr>files = fs, trace = []\<rparr>"
  let ?w' = "log (StartDownload (url rq)) True (log_callback rq) \<lparr>files = fs, trace = []\<rparr>"
  have p: "resolved_path ev ?q = resolved_path ev rq" by (simp add: resolved_path_def)
  have c: "request_cmd ev ?q = request_cmd ev rq" by (simp add: request_cmd_def p)
  have "files ?w' = files ?w" "trace ?w' = without_console (trace ?w)" by simp_all
  note l = retry_loop_quiet [OF this, of ev rq "request_cmd ev rq" "resolved_path ev rq"
      "range_py (retry rq + 1)"]
  show ?thesis
  proof (cases "fs (resolved_path ev rq) = None")
    case True
    then show ?thesis
      using l
      by (simp add: download_m3u8_def Let_def p c split: prod.splits control.splits
          del: trace_log) (auto simp: prod_eq_iff)
  next
    case False
    then show ?thesis by (simp add: download_m3u8_def Let_def p)
  qed
qed


text \<open>
  Claim C9. Two runs that differ in the quiet flag only return the same result and pass
  the same messages, in the same order, to the log callback; they also leave the same
  files. The trace of the quiet run is the trace of the other run without its console
  events, so the flag takes away console output and nothing else.
\<close>

theorem quiet_only_silences_console:
  "fst (download_m3u8 ev (rq\<lparr>quiet := qa\<rparr>) \<lparr>files = fs, trace = []\<rparr>)
     = fst (download_m3u8 ev (rq\<lparr>quiet := qb\<rparr>) \<lparr>files = fs, trace = []\<rparr>)
   \<and> callback_messages (trace (snd (download_m3u8 ev (rq\<lparr>quiet := qa\<rparr>) \<lparr>files = fs, trace = []\<rparr>)))
     = callback_messages (trace (snd (download_m3u8 ev (rq\<lparr>quiet := qb\<rparr>) \<lparr>files = fs, trace = []\<rparr>)))
   \<and> files (snd (download_m3u8 ev (rq\<lparr>quiet := qa\<rparr>) \<lparr>files = fs, trace = []\<rparr>))
     = files (snd (download_m3u8 ev (rq\<lparr>quiet := qb\<rparr>) \<lparr>files = fs, trace = []\<rparr>))
   \<and> trace (snd (download_m3u8 ev (rq\<lparr>quiet := True\<rparr>) \<lparr>files = fs, trace = []\<rparr>))
     = without_console
         (trace (snd (download_m3u8 ev (rq\<lparr>quiet := False\<rparr>) \<lparr>files = fs, trace = []\<rparr>)))"
proof -
  have q: "fst (download_m3u8 ev (rq\<lparr>quiet := True\<rparr>) \<lparr>files = fs, trace = []\<rparr>)
       = fst (download_m3u8 ev (rq\<lparr>quiet := q\<rparr>) \<lparr>files = fs, trace = []\<rparr>)
     \<and> files (snd (download_m3u8 ev (rq\<lparr>quiet := True\<rparr>) \<lparr>files = fs, trace = []\<rparr>))
       = files (snd (download_m3u8 ev (rq\<lparr>quiet := q\<rparr>) \<lparr>files = fs, trace = []\<rparr>))
     \<and> trace (snd (download_m3u8 ev (rq\<lparr>quiet := True\<rparr>) \<lparr>files = fs, trace = []\<rparr>))
       = without_console
           (trace (snd (download_m3u8 ev (rq\<lparr>quiet := q\<rparr>) \<lparr>files = fs, trace = []\<rparr>)))" for q
    using download_m3u8_quiet [of ev "rq\<lparr>quiet := q\<rparr>" fs] by simp
  have c: "callback_messages (trace (snd (download_m3u8 ev (rq\<lparr>quiet := q\<rparr>) \<lparr>files = fs, trace = []\<rparr>)))
     = callback_messages (trace (snd (download_m3u8 ev (rq\<lparr>quiet := True\<rparr>) \<lparr>files = fs, trace = []\<rparr>)))"
    for q
    using q [of q] by (simp add: callback_messages_without_console)
  show ?thesis using q [of qa] q [of qb] q [of False] c [of qa] c [of qb] by simp
qed

text \<open>
  The scenario with a tool that exits with 0: the quiet run passes three messages to the
  callback, and so does the run that is not quiet.
\<close>

theorem quiet_only_silences_console_witness:
  "callback_messages (trace (snd (download_m3u8 (always_exit 0)
       ((example_request 0)\<lparr>quiet := False\<rparr>) \<lparr>files = Map.empty, trace = []\<rparr>)))
     = [StartDownload ''http://x/a.m3u8'', AttemptOf 1 1, DownloadDone ''t1.mp4'']
   \<and> fst (download_m3u8 (always_exit 0)
       ((example_request 0)\<lparr>quiet := False\<rparr>) \<lparr>files = Map.empty, trace = []\<rparr>) = Inr True"
proof -
  have p: "resolved_path (always_exit 0) ((example_request 0)\<lparr>quiet := True\<rparr>) = ''t1.mp4''"
    by (simp add: resolved_path_def resolve_output_def example_request_def always_exit_def
        stub_tool_def endswith_def lower_def lower_char_def)
  have r: "range_py 1 = [0]" by (simp add: range_py_def)
  have o: "outcome (tool (always_exit 0) 0 argv) = Exited [] 0" for argv
    by (simp add: always_exit_def stub_tool_def)
  have v: "retry (example_request 0) = 0" "log_callback (example_request 0) = True"
    "url (example_request 0) = ''http://x/a.m3u8''"
    by (simp_all add: example_request_def)
  have run: "download_m3u8 (always_exit 0) ((example_request 0)\<lparr>quiet := True\<rparr>)
        \<lparr>files = Map.empty, trace = []\<rparr>
      = (Inr True,
         \<lparr>files = writes (tool (always_exit 0) 0
                     (request_cmd (always_exit 0) ((example_request 0)\<lparr>quiet := True\<rparr>)))
                   Map.empty,
          trace = [CallbackMsg (StartDownload ''http://x/a.m3u8''), CallbackMsg (AttemptOf 1 1),
                   Spawn (request_cmd (always_exit 0) ((example_request 0)\<lparr>quiet := True\<rparr>)),
                   CallbackMsg (DownloadDone ''t1.mp4'')]\<rparr>)"
    by (simp add: download_m3u8_def p r o v retry_loop_Cons attempt_body_def Let_def log_def
        emit_def relay_def path_exists_def)
  have "callback_messages (trace (snd (download_m3u8 (always_exit 0)
       ((example_request 0)\<lparr>quiet := True\<rparr>) \<lparr>files = Map.empty, trace = []\<rparr>)))
     = [StartDownload ''http://x/a.m3u8'', AttemptOf 1 1, DownloadDone ''t1.mp4'']"
    "fst (download_m3u8 (always_exit 0)
       ((example_request 0)\<lparr>quiet := True\<rparr>) \<lparr>files = Map.empty, trace = []\<rparr>) = Inr True"
    by (simp_all add: run callback_messages_def)
  then show ?thesis
    using quiet_only_silences_console [where ev = "always_exit 0" and rq = "example_request 0"
        and qa = False and qb = True and fs = Map.empty]
    by simp
qed


subsection \<open>Faults\<close>

lemma download_m3u8_files:
  "files (snd (download_m3u8 ev rq w)) =
     (if path_exists w (resolved_path ev rq) then files w
      else files (snd (retry_loop ev rq (request_cmd ev rq) (resolved_path ev rq)
                       (range_py (retry rq + 1))
                       (log (StartDownload (url rq)) (quiet rq) (log_callback rq) w))))"
  by (simp add: download_m3u8_def Let_def split: prod.splits control.splits)

text \<open>
  The loop sees a process only through its success and its effect on the files: two tools
  that agree on both, attempt by attempt, give the same result, the same files and the
  same starts and sleeps.
\<close>

lemma retry_loop_cong:
  assumes "\<forall>a\<in>set as.
      succeeded (outcome (tool ev' (nat a) cmd)) = succeeded (outcome (tool ev (nat a) cmd))
      \<and> effect (tool ev' (nat a) cmd) = effect (tool ev (nat a) cmd)"
    and "files w' = files w" and "actions (trace w') = actions (trace w)"
  shows "fst (retry_loop ev' rq cmd out as w') = fst (retry_loop ev rq cmd out as w)
    \<and> files (snd (retry_loop ev' rq cmd out as w')) = files (snd (retry_loop ev rq cmd out as w))
    \<and> actions (trace (snd (retry_loop ev' rq cmd out as w')))
        = actions (trace (snd (retry_loop ev rq cmd out as w)))"
  using assms
proof (induction as arbitrary: w w')
  case Nil
  then show ?case by simp
next
  case (Cons a as)
  let ?b' = "attempt_body ev' rq cmd out a w'"
  let ?b = "attempt_body ev rq cmd out a w"
  have s: "succeeded (outcome (tool ev' (nat a) cmd)) = succeeded (outcome (tool ev (nat a) cmd))"
    and e: "effect (tool ev' (nat a) cmd) = effect (tool ev (nat a) cmd)"
    using Cons.prems(1) by simp_all
  have c: "fst ?b' = fst ?b" by (simp add: attempt_body_control s)
  have f: "files (snd ?b') = files (snd ?b)" by (simp add: attempt_body_files e Cons.prems(2))
  have t: "actions (trace (snd ?b')) = actions (trace (snd ?b))"
    by (simp add: attempt_body_actions s Cons.prems(3))
  have rest: "\<forall>a\<in>set as.
      succeeded (outcome (tool ev' (nat a) cmd)) = succeeded (outcome (tool ev (nat a) cmd))
      \<and> effect (tool ev' (nat a) cmd) = effect (tool ev (nat a) cmd)"
    using Cons.prems(1) by simp
  show ?case
  proof (cases "fst ?b = Continue")
    case True
    then show ?thesis using c Cons.IH [OF rest f t] by (simp add: retry_loop_Cons)
  next
    case False
    then show ?thesis using c f t by (simp add: retry_loop_Cons)
  qed
qed

text \<open>What an attempt that faults does.\<close>

lemma attempt_body_fault:
  assumes "fault (outcome (tool ev (nat a) cmd)) = Some e" and "0 \<le> retry_delay rq"
  shows "fst (attempt_body ev rq cmd out a w) = Continue
    \<and> trace (snd (attempt_body ev rq cmd out a w)) =
        trace w @ log_events (AttemptOf (a + 1) (retry rq + 1)) (quiet rq) (log_callback rq)
        @ [Spawn cmd] @ relay_events (printed (outcome (tool ev (nat a) cmd))) (quiet rq)
        @ log_events (DownloadError e) (quiet rq) (log_callback rq)
        @ (if a < retry rq
           then log_events (RetryIn (retry_delay rq)) (quiet rq) (log_callback rq)
                @ [Sleep (retry_delay rq)]
           else [])"
  using assms
  by (cases "outcome (tool ev (nat a) cmd)")
     (simp_all add: attempt_body_def on_exception_def sleep_def Let_def relay_events_def)

text \<open>What an attempt that ends with a non-zero return code does.\<close>

lemma attempt_body_failure:
  assumes "exit_code (outcome (tool ev (nat a) cmd)) = Some rc" and "rc \<noteq> 0"
    and "0 \<le> retry_delay rq"
  shows "fst (attempt_body ev rq cmd out a w) = Continue
    \<and> trace (snd (attempt_body ev rq cmd out a w)) =
        trace w @ log_events (AttemptOf (a + 1) (retry rq + 1)) (quiet rq) (log_callback rq)
        @ [Spawn cmd] @ relay_events (printed (outcome (tool ev (nat a) cmd))) (quiet rq)
        @ log_events (DownloadFailed rc) (quiet rq) (log_callback rq)
        @ (if a < retry rq
           then log_events (RetryIn (retry_delay rq)) (quiet rq) (log_callback rq)
                @ [Sleep (retry_delay rq)]
           else [])"
  using assms
  by (cases "outcome (tool ev (nat a) cmd)")
     (simp_all add: attempt_body_def on_exception_def sleep_def Let_def)

lemma download_m3u8_returns:
  assumes "0 \<le> retry_delay rq"
  shows "\<exists>b. fst (download_m3u8 ev rq w) = Inr b"
proof (cases "fst (retry_loop ev rq (request_cmd ev rq) (resolved_path ev rq)
                       (range_py (retry rq + 1))
                       (log (StartDownload (url rq)) (quiet rq) (log_callback rq) w))")
  case Continue
  then have "fst (download_m3u8 ev rq w) = Inr False" by (simp add: download_m3u8_result)
  then show ?thesis by blast
next
  case (Return b)
  then have "fst (download_m3u8 ev rq w) = Inr (if path_exists w (resolved_path ev rq) then False else b)"
    by (simp add: download_m3u8_result)
  then show ?thesis by blast
next
  case (Raise e)
  then show ?thesis using retry_loop_no_Raise [OF assms] by blast
qed

text \<open>
  The delay must not be negative for that: with a retry left, a first attempt that fails
  and a negative delay, the \<^verbatim>\<open>ValueError\<close> of \<^verbatim>\<open>time.sleep\<close> in the handler reaches the
  caller.
\<close>

lemma negative_delay_raises:
  assumes "fs (resolved_path ev rq) = None" and "0 < retry rq" and "retry_delay rq < 0"
    and "\<not> succeeded (outcome (tool ev 0 (request_cmd ev rq)))"
  shows "fst (download_m3u8 ev rq \<lparr>files = fs, trace = []\<rparr>)
    = Inl ''sleep length must be non-negative''"
proof -
  have r: "range_py (retry rq + 1) = 0 # map int [Suc 0..<nat (retry rq + 1)]"
    using assms(2) range_split [of 0 "retry rq + 1"] by simp
  show ?thesis
    using assms
    by (simp add: download_m3u8_result r retry_loop_Cons attempt_body_control del: trace_log)
qed

lemma fault_not_succeeded: "fault r = Some e \<Longrightarrow> \<not> succeeded r"
  by (cases r) simp_all

lemma failure_not_succeeded: "exit_code r = Some rc \<Longrightarrow> rc \<noteq> 0 \<Longrightarrow> \<not> succeeded r"
  by (cases r) simp_all

subsection \<open>The events of a pass and of the loop\<close>

lemma attempt_body_trace:
  "trace (snd (attempt_body ev rq cmd out a w)) = trace w @ attempt_events ev rq cmd out a"
  unfolding attempt_events_def
  by (cases "outcome (tool ev (nat a) cmd)")
     (simp_all add: attempt_body_def on_exception_def sleep_def Let_def)

lemma attempt_body_fst_indep:
  "fst (attempt_body ev rq cmd out a w) = fst (attempt_body ev rq cmd out a w')"
  by (simp add: attempt_body_control)

lemma retry_loop_fst_indep:
  "fst (retry_loop ev rq cmd out as w) = fst (retry_loop ev rq cmd out as w')"
proof (induction as arbitrary: w w')
  case Nil
  show ?case by simp
next
  case (Cons a as)
  show ?case
    using attempt_body_fst_indep [of ev rq cmd out a w w']
      Cons.IH [of "snd (attempt_body ev rq cmd out a w)" "snd (attempt_body ev rq cmd out a w')"]
    by (simp add: retry_loop_Cons)
qed

lemma retry_loop_trace:
  "trace (snd (retry_loop ev rq cmd out as w)) = trace w @ loop_events ev rq cmd out as"
proof (induction as arbitrary: w)
  case Nil
  show ?case by (simp add: loop_events_def)
next
  case (Cons a as)
  let ?e = "\<lparr>files = Map.empty, trace = []\<rparr>"
  have c: "fst (attempt_body ev rq cmd out a ?e) = fst (attempt_body ev rq cmd out a w)"
    by (rule attempt_body_fst_indep)
  show ?case
  proof (cases "fst (attempt_body ev rq cmd out a w) = Continue")
    case True
    have "loop_events ev rq cmd out (a # as)
        = attempt_events ev rq cmd out a @ loop_events ev rq cmd out as"
      using True c Cons.IH [of "snd (attempt_body ev rq cmd out a ?e)"]
      by (simp add: loop_events_def [of _ _ _ _ "a # as"] retry_loop_Cons attempt_body_trace)
    then show ?thesis
      using True Cons.IH [of "snd (attempt_body ev rq cmd out a w)"]
      by (simp add: retry_loop_Cons attempt_body_trace)
  next
    case False
    then have "loop_events ev rq cmd out (a # as) = attempt_events ev rq cmd out a"
      using c by (simp add: loop_events_def retry_loop_Cons attempt_body_trace)
    then show ?thesis using False by (simp add: retry_loop_Cons attempt_body_trace)
  qed
qed

lemma loop_events_Nil [simp]: "loop_events ev rq cmd out [] = []"
  by (simp add: loop_events_def)

lemma loop_events_Cons:
  "loop_events ev rq cmd out (a # as) =
     attempt_events ev rq cmd out a @
     (if fst (attempt_body ev rq cmd out a w) = Continue then loop_events ev rq cmd out as
      else [])"
proof -
  let ?e = "\<lparr>files = Map.empty, trace = []\<rparr>"
  let ?b = "attempt_body ev rq cmd out a ?e"
  have c: "fst ?b = fst (attempt_body ev rq cmd out a w)"
    by (rule attempt_body_fst_indep)
  have 1: "loop_events ev rq cmd out (a # as) = trace (snd (retry_loop ev rq cmd out (a # as) ?e))"
    by (simp only: loop_events_def)
  have 2: "trace (snd (retry_loop ev rq cmd out (a # as) ?e)) =
      (if fst ?b = Continue then trace (snd (retry_loop ev rq cmd out as (snd ?b)))
       else trace (snd ?b))"
    by (simp add: retry_loop_Cons)
  have 3: "trace (snd (retry_loop ev rq cmd out as (snd ?b)))
      = trace (snd ?b) @ loop_events ev rq cmd out as"
    by (rule retry_loop_trace)
  have 4: "trace (snd ?b) = attempt_events ev rq cmd out a"
    by (simp add: attempt_events_def)
  show ?thesis by (simp only: 1 2 3 4 c) simp
qed

lemma loop_events_append:
  "loop_events ev rq cmd out (xs @ ys) =
     loop_events ev rq cmd out xs @
     (if fst (retry_loop ev rq cmd out xs w) = Continue then loop_events ev rq cmd out ys
      else [])"
proof -
  let ?e = "\<lparr>files = Map.empty, trace = []\<rparr>"
  let ?l = "retry_loop ev rq cmd out xs ?e"
  have c: "fst ?l = fst (retry_loop ev rq cmd out xs w)"
    by (rule retry_loop_fst_indep)
  have 1: "loop_events ev rq cmd out (xs @ ys)
      = trace (snd (retry_loop ev rq cmd out (xs @ ys) ?e))"
    by (simp only: loop_events_def)
  have 2: "trace (snd (retry_loop ev rq cmd out (xs @ ys) ?e)) =
      (if fst ?l = Continue then trace (snd (retry_loop ev rq cmd out ys (snd ?l)))
       else trace (snd ?l))"
    by (simp add: retry_loop_append)
  have 3: "trace (snd (retry_loop ev rq cmd out ys (snd ?l)))
      = trace (snd ?l) @ loop_events ev rq cmd out ys"
    by (rule retry_loop_trace)
  have 4: "trace (snd ?l) = loop_events ev rq cmd out xs"
    by (simp only: loop_events_def)
  show ?thesis by (simp only: 1 2 3 4 c) simp
qed

lemma retry_loop_fst_append:
  "fst (retry_loop ev rq cmd out (xs @ ys) w) =
     (if fst (retry_loop ev rq cmd out xs w) = Continue then fst (retry_loop ev rq cmd out ys w)
      else fst (retry_loop ev rq cmd out xs w))"
  using retry_loop_fst_indep [of ev rq cmd out ys "snd (retry_loop ev rq cmd out xs w)" w]
  by (simp add: retry_loop_append)

text \<open>The loop looks at the tool only through the processes of its attempts.\<close>

lemma attempt_body_tool_cong:
  "tool ev' (nat a) cmd = tool ev (nat a) cmd \<Longrightarrow>
     attempt_body ev' rq cmd out a w = attempt_body ev rq cmd out a w"
  by (simp add: attempt_body_def)

lemma retry_loop_tool_cong:
  "\<forall>a\<in>set as. tool ev' (nat a) cmd = tool ev (nat a) cmd \<Longrightarrow>
     retry_loop ev' rq cmd out as w = retry_loop ev rq cmd out as w"
proof (induction as arbitrary: w)
  case Nil
  show ?case by simp
next
  case (Cons a as)
  have "tool ev' (nat a) cmd = tool ev (nat a) cmd" using Cons.prems by simp
  then have b: "attempt_body ev' rq cmd out a w = attempt_body ev rq cmd out a w"
    by (rule attempt_body_tool_cong)
  have rest: "\<forall>a\<in>set as. tool ev' (nat a) cmd = tool ev (nat a) cmd"
    using Cons.prems by simp
  have "retry_loop ev' rq cmd out as (snd (attempt_body ev rq cmd out a w))
      = retry_loop ev rq cmd out as (snd (attempt_body ev rq cmd out a w))"
    using rest by (rule Cons.IH)
  then show ?case by (simp only: retry_loop_Cons b)
qed

lemma attempt_events_start:
  "\<exists>rest. attempt_events ev rq cmd out a =
     log_events (AttemptOf (a + 1) (retry rq + 1)) (quiet rq) (log_callback rq)
     @ [Spawn cmd] @ rest"
  unfolding attempt_events_def
  by (cases "outcome (tool ev (nat a) cmd)")
     (simp_all add: attempt_body_def on_exception_def sleep_def Let_def)

lemma download_m3u8_trace_loop:
  "trace (snd (download_m3u8 ev rq w)) =
     (if path_exists w (resolved_path ev rq)
      then trace w
           @ log_events (FileExists (resolved_path ev rq)) (quiet rq) (log_callback rq)
      else trace (snd (retry_loop ev rq (request_cmd ev rq) (resolved_path ev rq)
                        (range_py (retry rq + 1))
                        (log (StartDownload (url rq)) (quiet rq) (log_callback rq) w)))
           @ (if fst (retry_loop ev rq (request_cmd ev rq) (resolved_path ev rq)
                        (range_py (retry rq + 1))
                        (log (StartDownload (url rq)) (quiet rq) (log_callback rq) w))
                 = Continue
              then log_events MaxRetries (quiet rq) (log_callback rq) else []))"
  by (simp add: download_m3u8_def Let_def split: prod.splits control.splits)

lemma download_m3u8_trace:
  assumes "fs (resolved_path ev rq) = None"
  shows "trace (snd (download_m3u8 ev rq \<lparr>files = fs, trace = []\<rparr>)) =
     log_events (StartDownload (url rq)) (quiet rq) (log_callback rq)
     @ loop_events ev rq (request_cmd ev rq) (resolved_path ev rq) (range_py (retry rq + 1))
     @ (if fst (retry_loop ev rq (request_cmd ev rq) (resolved_path ev rq)
                  (range_py (retry rq + 1)) \<lparr>files = fs, trace = []\<rparr>) = Continue
        then log_events MaxRetries (quiet rq) (log_callback rq) else [])"
proof -
  let ?e = "\<lparr>files = fs, trace = []\<rparr>"
  let ?w = "log (StartDownload (url rq)) (quiet rq) (log_callback rq) ?e"
  let ?l = "retry_loop ev rq (request_cmd ev rq) (resolved_path ev rq) (range_py (retry rq + 1))"
  have c: "fst (?l ?w) = fst (?l ?e)" by (rule retry_loop_fst_indep)
  have t: "trace (snd (?l ?w)) = trace ?w @ loop_events ev rq (request_cmd ev rq)
      (resolved_path ev rq) (range_py (retry rq + 1))"
    by (rule retry_loop_trace)
  have w: "trace ?w = log_events (StartDownload (url rq)) (quiet rq) (log_callback rq)"
    by simp
  have f: "\<not> path_exists ?e (resolved_path ev rq)" using assms by simp
  show ?thesis
    by (simp only: download_m3u8_trace_loop f if_False c t w append_assoc)
qed


lemma retry_loop_fst_Cons:
  "fst (retry_loop ev rq cmd out (a # as) w) =
     (if fst (attempt_body ev rq cmd out a w) = Continue then fst (retry_loop ev rq cmd out as w)
      else fst (attempt_body ev rq cmd out a w))"
  using retry_loop_fst_indep [of ev rq cmd out as "snd (attempt_body ev rq cmd out a w)" w]
  by (simp add: retry_loop_Cons)

lemma attempt_events_fault:
  assumes "fault (outcome (tool ev (nat a) cmd)) = Some e" and "0 \<le> retry_delay rq"
  shows "attempt_events ev rq cmd out a =
     log_events (AttemptOf (a + 1) (retry rq + 1)) (quiet rq) (log_callback rq)
     @ [Spawn cmd] @ relay_events (printed (outcome (tool ev (nat a) cmd))) (quiet rq)
     @ log_events (DownloadError e) (quiet rq) (log_callback rq)
     @ (if a < retry rq
        then log_events (RetryIn (retry_delay rq)) (quiet rq) (log_callback rq)
             @ [Sleep (retry_delay rq)]
        else [])"
  using attempt_body_fault [OF assms, of out "\<lparr>files = Map.empty, trace = []\<rparr>"]
  by (simp add: attempt_events_def)

lemma attempt_events_failure:
  assumes "exit_code (outcome (tool ev (nat a) cmd)) = Some rc" and "rc \<noteq> 0"
    and "0 \<le> retry_delay rq"
  shows "attempt_events ev rq cmd out a =
     log_events (AttemptOf (a + 1) (retry rq + 1)) (quiet rq) (log_callback rq)
     @ [Spawn cmd] @ relay_events (printed (outcome (tool ev (nat a) cmd))) (quiet rq)
     @ log_events (DownloadFailed rc) (quiet rq) (log_callback rq)
     @ (if a < retry rq
        then log_events (RetryIn (retry_delay rq)) (quiet rq) (log_callback rq)
             @ [Sleep (retry_delay rq)]
        else [])"
  using attempt_body_failure [OF assms, of out "\<lparr>files = Map.empty, trace = []\<rparr>"]
  by (simp add: attempt_events_def)

text \<open>
  A run in which the attempts before \<open>k\<close> fail and attempt \<open>k\<close> fails too, whether by a
  fault or by a non-zero return code: its trace is the start log, the events of the
  attempts before \<open>k\<close>, the events of attempt \<open>k\<close>, the events of the attempts after it
  and, when the loop runs out of attempts, the max-retries log.
\<close>

lemma run_through_failed_attempt:
  assumes free: "fs (resolved_path ev rq) = None"
    and k: "int k \<le> retry rq"
    and delay: "0 \<le> retry_delay rq"
    and reached: "\<forall>j<k. \<not> succeeded (outcome (tool ev j (request_cmd ev rq)))"
    and fails: "\<not> succeeded (outcome (tool ev k (request_cmd ev rq)))"
  shows "trace (snd (download_m3u8 ev rq \<lparr>files = fs, trace = []\<rparr>)) =
      (log_events (StartDownload (url rq)) (quiet rq) (log_callback rq)
       @ loop_events ev rq (request_cmd ev rq) (resolved_path ev rq) (map int [0..<k]))
      @ attempt_events ev rq (request_cmd ev rq) (resolved_path ev rq) (int k)
      @ (loop_events ev rq (request_cmd ev rq) (resolved_path ev rq)
           (map int [Suc k..<nat (retry rq + 1)])
         @ (if fst (retry_loop ev rq (request_cmd ev rq) (resolved_path ev rq)
                      (map int [Suc k..<nat (retry rq + 1)]) \<lparr>files = fs, trace = []\<rparr>)
                 = Continue
            then log_events MaxRetries (quiet rq) (log_callback rq) else []))"
    and "fst (retry_loop ev rq (request_cmd ev rq) (resolved_path ev rq)
                (range_py (retry rq + 1)) \<lparr>files = fs, trace = []\<rparr>)
         = fst (retry_loop ev rq (request_cmd ev rq) (resolved_path ev rq)
                (map int [Suc k..<nat (retry rq + 1)]) \<lparr>files = fs, trace = []\<rparr>)"
    and "actions (loop_events ev rq (request_cmd ev rq) (resolved_path ev rq) (map int [0..<k]))
         = concat (replicate k [Spawn (request_cmd ev rq), Sleep (retry_delay rq)])"
proof -
  let ?cmd = "request_cmd ev rq"
  let ?out = "resolved_path ev rq"
  let ?e = "\<lparr>files = fs, trace = []\<rparr>"
  let ?P = "map int [0..<k]"
  let ?S = "map int [Suc k..<nat (retry rq + 1)]"
  have lt: "k < nat (retry rq + 1)" using k by linarith
  have r: "range_py (retry rq + 1) = ?P @ int k # ?S" using lt by (rule range_split)
  have failP: "\<forall>a\<in>set ?P. \<not> succeeded (outcome (tool ev (nat a) ?cmd))"
    using reached by auto
  have cP: "fst (retry_loop ev rq ?cmd ?out ?P w) = Continue" for w
    using retry_loop_all_fail [OF failP delay, of ?out w] by simp
  have ck: "fst (attempt_body ev rq ?cmd ?out (int k) w) = Continue" for w
    using fails delay by (simp add: attempt_body_control)
  have ev: "loop_events ev rq ?cmd ?out (range_py (retry rq + 1)) =
      loop_events ev rq ?cmd ?out ?P @ attempt_events ev rq ?cmd ?out (int k)
      @ loop_events ev rq ?cmd ?out ?S"
    by (simp add: r loop_events_append [where w = ?e] cP
        loop_events_Cons [where w = ?e] ck)
  show c: "fst (retry_loop ev rq ?cmd ?out (range_py (retry rq + 1)) ?e)
      = fst (retry_loop ev rq ?cmd ?out ?S ?e)"
    by (simp add: r retry_loop_fst_append cP retry_loop_fst_Cons ck)
  show "trace (snd (download_m3u8 ev rq ?e)) =
      (log_events (StartDownload (url rq)) (quiet rq) (log_callback rq)
       @ loop_events ev rq ?cmd ?out ?P)
      @ attempt_events ev rq ?cmd ?out (int k)
      @ (loop_events ev rq ?cmd ?out ?S
         @ (if fst (retry_loop ev rq ?cmd ?out ?S ?e) = Continue
            then log_events MaxRetries (quiet rq) (log_callback rq) else []))"
    using download_m3u8_trace [of fs ev rq] free by (simp only: ev c append_assoc)
  have small: "\<forall>a\<in>set ?P. a < retry rq" using k by auto
  have "actions (trace (snd (retry_loop ev rq ?cmd ?out ?P \<lparr>files = Map.empty, trace = []\<rparr>)))
      = concat (replicate k [Spawn ?cmd, Sleep (retry_delay rq)])"
    using retry_loop_all_fail [OF failP delay, of ?out "\<lparr>files = Map.empty, trace = []\<rparr>"]
      failed_attempts_actions [OF small, of ?cmd "retry_delay rq"]
    by simp
  then show "actions (loop_events ev rq ?cmd ?out ?P)
      = concat (replicate k [Spawn ?cmd, Sleep (retry_delay rq)])"
    by (simp only: loop_events_def)
qed


lemma loop_events_tool_cong:
  assumes "\<forall>a\<in>set as. tool ev' (nat a) cmd = tool ev (nat a) cmd"
  shows "loop_events ev' rq cmd out as = loop_events ev rq cmd out as"
  unfolding loop_events_def by (simp only: retry_loop_tool_cong [OF assms])

text \<open>What follows a failed attempt that was not the last: the next attempt.\<close>

lemma loop_events_next:
  assumes "int k < retry rq"
  shows "\<exists>rest. loop_events ev rq cmd out (map int [Suc k..<nat (retry rq + 1)]) =
     log_events (AttemptOf (int k + 2) (retry rq + 1)) (quiet rq) (log_callback rq)
     @ [Spawn cmd] @ rest"
proof -
  have "Suc k < nat (retry rq + 1)" using assms by linarith
  then have s: "map int [Suc k..<nat (retry rq + 1)]
      = int (Suc k) # map int [Suc (Suc k)..<nat (retry rq + 1)]"
    by (simp add: upt_conv_Cons)
  obtain r where r: "attempt_events ev rq cmd out (int (Suc k)) =
      log_events (AttemptOf (int (Suc k) + 1) (retry rq + 1)) (quiet rq) (log_callback rq)
      @ [Spawn cmd] @ r"
    using attempt_events_start [of ev rq cmd out "int (Suc k)"] by blast
  have i: "int (Suc k) + 1 = int k + 2" by simp
  show ?thesis
    by (simp only: s loop_events_Cons [where w = "\<lparr>files = Map.empty, trace = []\<rparr>"] r i)
       simp
qed

text \<open>
  Claim C8. Take a run (output path free, delay not negative) in which the attempts before
  attempt \<open>k \<le> retry\<close> fail, so that attempt \<open>k\<close> is made, and in which attempt \<open>k\<close>
  faults: starting the process, or relaying its output, raises \<open>e\<close>. Take a second tool
  that differs only in that its process \<open>k\<close> ends with a non-zero return code \<open>rc\<close>, with
  the same effect on the files. Then
  \<^item> the trace of the run is some events \<open>pre\<close> of the \<open>k\<close> attempts before (\<open>k\<close> times a
    start and a sleep), then the events of attempt \<open>k\<close>: the attempt log, the start of the
    tool, the relayed lines, the log of the fault and, when \<open>k < retry\<close>, the log of the
    delay and a sleep of \<open>retry_delay\<close> seconds; then some events \<open>post\<close>;
  \<^item> when \<open>k < retry\<close>, \<open>post\<close> begins with the log and the start of attempt \<open>k + 1\<close>: the
    download is retried; when \<open>k = retry\<close>, \<open>post\<close> is the max-retries log, without a
    sleep, and the result is \<open>False\<close>;
  \<^item> the run with the second tool has the same \<open>pre\<close> and \<open>post\<close>, and its attempt \<open>k\<close>
    differs only in logging the return code in place of the fault (and in the lines its
    process printed); the two runs have the same result and leave the same files;
  \<^item> the result is a truth value: no exception reaches the caller.
\<close>

theorem fault_retried_like_failure:
  assumes free: "fs (resolved_path ev rq) = None"
    and k: "int k \<le> retry rq"
    and delay: "0 \<le> retry_delay rq"
    and reached: "\<forall>j<k. \<not> succeeded (outcome (tool ev j (request_cmd ev rq)))"
    and flt: "fault (outcome (tool ev k (request_cmd ev rq))) = Some e"
    and fl: "exit_code (outcome (tool ev' k (request_cmd ev rq))) = Some rc" "rc \<noteq> 0"
    and eff: "effect (tool ev' k (request_cmd ev rq)) = effect (tool ev k (request_cmd ev rq))"
    and other: "\<forall>j. j \<noteq> k \<longrightarrow> tool ev' j = tool ev j"
    and clk: "clock ev' = clock ev"
  shows "(\<exists>pre post.
        trace (snd (download_m3u8 ev rq \<lparr>files = fs, trace = []\<rparr>)) =
          pre
          @ log_events (AttemptOf (int k + 1) (retry rq + 1)) (quiet rq) (log_callback rq)
          @ [Spawn (request_cmd ev rq)]
          @ relay_events (printed (outcome (tool ev k (request_cmd ev rq)))) (quiet rq)
          @ log_events (DownloadError e) (quiet rq) (log_callback rq)
          @ (if int k < retry rq
             then log_events (RetryIn (retry_delay rq)) (quiet rq) (log_callback rq)
                  @ [Sleep (retry_delay rq)]
             else [])
          @ post
      \<and> trace (snd (download_m3u8 ev' rq \<lparr>files = fs, trace = []\<rparr>)) =
          pre
          @ log_events (AttemptOf (int k + 1) (retry rq + 1)) (quiet rq) (log_callback rq)
          @ [Spawn (request_cmd ev rq)]
          @ relay_events (printed (outcome (tool ev' k (request_cmd ev rq)))) (quiet rq)
          @ log_events (DownloadFailed rc) (quiet rq) (log_callback rq)
          @ (if int k < retry rq
             then log_events (RetryIn (retry_delay rq)) (quiet rq) (log_callback rq)
                  @ [Sleep (retry_delay rq)]
             else [])
          @ post
      \<and> actions pre = concat (replicate k [Spawn (request_cmd ev rq), Sleep (retry_delay rq)])
      \<and> (int k < retry rq \<longrightarrow>
           (\<exists>rest. post =
              log_events (AttemptOf (int k + 2) (retry rq + 1)) (quiet rq) (log_callback rq)
              @ [Spawn (request_cmd ev rq)] @ rest))
      \<and> (int k = retry rq \<longrightarrow> post = log_events MaxRetries (quiet rq) (log_callback rq)))
    \<and> (int k = retry rq \<longrightarrow>
         fst (download_m3u8 ev rq \<lparr>files = fs, trace = []\<rparr>) = Inr False)
    \<and> (\<exists>b. fst (download_m3u8 ev rq \<lparr>files = fs, trace = []\<rparr>) = Inr b)
    \<and> fst (download_m3u8 ev' rq \<lparr>files = fs, trace = []\<rparr>)
        = fst (download_m3u8 ev rq \<lparr>files = fs, trace = []\<rparr>)
    \<and> files (snd (download_m3u8 ev' rq \<lparr>files = fs, trace = []\<rparr>))
        = files (snd (download_m3u8 ev rq \<lparr>files = fs, trace = []\<rparr>))"
proof -
  let ?cmd = "request_cmd ev rq"
  let ?out = "resolved_path ev rq"
  let ?e = "\<lparr>files = fs, trace = []\<rparr>"
  let ?P = "map int [0..<k]"
  let ?S = "map int [Suc k..<nat (retry rq + 1)]"
  let ?start = "log_events (StartDownload (url rq)) (quiet rq) (log_callback rq)"
  let ?max = "log_events MaxRetries (quiet rq) (log_callback rq)"
  let ?pre = "?start @ loop_events ev rq ?cmd ?out ?P"
  let ?post = "loop_events ev rq ?cmd ?out ?S
     @ (if fst (retry_loop ev rq ?cmd ?out ?S ?e) = Continue then ?max else [])"
  have p: "resolved_path ev' rq = ?out" by (simp add: resolved_path_def clk)
  have c: "request_cmd ev' rq = ?cmd" by (simp add: request_cmd_def p)
  have flt': "fault (outcome (tool ev (nat (int k)) ?cmd)) = Some e" using flt by simp
  have fl': "exit_code (outcome (tool ev' (nat (int k)) ?cmd)) = Some rc" using fl(1) by simp
  have nf: "\<not> succeeded (outcome (tool ev k ?cmd))" using flt by (rule fault_not_succeeded)
  have nf': "\<not> succeeded (outcome (tool ev' k ?cmd))" using fl by (rule failure_not_succeeded)
  have reached': "\<forall>j<k. \<not> succeeded (outcome (tool ev' j ?cmd))"
    using reached other by simp
  have agreeP: "\<forall>a\<in>set ?P. tool ev' (nat a) ?cmd = tool ev (nat a) ?cmd"
    using other by auto
  have agreeS: "\<forall>a\<in>set ?S. tool ev' (nat a) ?cmd = tool ev (nat a) ?cmd"
    using other by auto
  have eP: "loop_events ev' rq ?cmd ?out ?P = loop_events ev rq ?cmd ?out ?P"
    using agreeP by (rule loop_events_tool_cong)
  have eS: "loop_events ev' rq ?cmd ?out ?S = loop_events ev rq ?cmd ?out ?S"
    using agreeS by (rule loop_events_tool_cong)
  have fS: "fst (retry_loop ev' rq ?cmd ?out ?S ?e) = fst (retry_loop ev rq ?cmd ?out ?S ?e)"
    by (simp only: retry_loop_tool_cong [OF agreeS])
  note run = run_through_failed_attempt [OF _ k delay reached nf, of fs]
  note run' = run_through_failed_attempt [of fs ev' rq k, unfolded p c,
      OF _ k delay reached' nf']
  have t: "trace (snd (download_m3u8 ev rq ?e)) =
      ?pre @ attempt_events ev rq ?cmd ?out (int k) @ ?post"
    using run(1) free by simp
  have t': "trace (snd (download_m3u8 ev' rq ?e)) =
      ?pre @ attempt_events ev' rq ?cmd ?out (int k) @ ?post"
    using run'(1) free by (simp add: eP eS fS)
  have a: "actions ?pre = concat (replicate k [Spawn ?cmd, Sleep (retry_delay rq)])"
    using run(3) free by simp
  note A = attempt_events_fault [OF flt' delay, of ?out]
  note A' = attempt_events_failure [OF fl' fl(2) delay, of ?out]
  have nxt: "\<exists>rest. ?post =
      log_events (AttemptOf (int k + 2) (retry rq + 1)) (quiet rq) (log_callback rq)
      @ [Spawn ?cmd] @ rest" if lt: "int k < retry rq"
  proof -
    obtain r where "loop_events ev rq ?cmd ?out ?S =
        log_events (AttemptOf (int k + 2) (retry rq + 1)) (quiet rq) (log_callback rq)
        @ [Spawn ?cmd] @ r"
      using loop_events_next [OF lt, of ev ?cmd ?out] by blast
    then show ?thesis by simp
  qed
  have S_Nil: "?S = []" if "int k = retry rq"
  proof -
    have "nat (retry rq + 1) = Suc k" using that by linarith
    then show ?thesis by simp
  qed
  have last: "?post = ?max" if "int k = retry rq"
    by (simp add: S_Nil [OF that])
  have res: "fst (download_m3u8 ev rq ?e) = Inr False" if last_attempt: "int k = retry rq"
  proof -
    let ?l = "retry_loop ev rq ?cmd ?out (range_py (retry rq + 1))"
    have "fst (?l (log (StartDownload (url rq)) (quiet rq) (log_callback rq) ?e)) = fst (?l ?e)"
      by (rule retry_loop_fst_indep)
    also have "\<dots> = fst (retry_loop ev rq ?cmd ?out ?S ?e)" using run(2) free by simp
    also have "\<dots> = Continue" by (simp add: S_Nil [OF last_attempt])
    finally show ?thesis using free by (simp add: download_m3u8_result del: trace_log)
  qed
  have 1: "\<exists>pre post.
        trace (snd (download_m3u8 ev rq ?e)) =
          pre
          @ log_events (AttemptOf (int k + 1) (retry rq + 1)) (quiet rq) (log_callback rq)
          @ [Spawn ?cmd]
          @ relay_events (printed (outcome (tool ev k ?cmd))) (quiet rq)
          @ log_events (DownloadError e) (quiet rq) (log_callback rq)
          @ (if int k < retry rq
             then log_events (RetryIn (retry_delay rq)) (quiet rq) (log_callback rq)
                  @ [Sleep (retry_delay rq)]
             else [])
          @ post
      \<and> trace (snd (download_m3u8 ev' rq ?e)) =
          pre
          @ log_events (AttemptOf (int k + 1) (retry rq + 1)) (quiet rq) (log_callback rq)
          @ [Spawn ?cmd]
          @ relay_events (printed (outcome (tool ev' k ?cmd))) (quiet rq)
          @ log_events (DownloadFailed rc) (quiet rq) (log_callback rq)
          @ (if int k < retry rq
             then log_events (RetryIn (retry_delay rq)) (quiet rq) (log_callback rq)
                  @ [Sleep (retry_delay rq)]
             else [])
          @ post
      \<and> actions pre = concat (replicate k [Spawn ?cmd, Sleep (retry_delay rq)])
      \<and> (int k < retry rq \<longrightarrow>
           (\<exists>rest. post =
              log_events (AttemptOf (int k + 2) (retry rq + 1)) (quiet rq) (log_callback rq)
              @ [Spawn ?cmd] @ rest))
      \<and> (int k = retry rq \<longrightarrow> post = ?max)"
  proof (rule exI [of _ ?pre], rule exI [of _ ?post], intro conjI impI)
    show "trace (snd (download_m3u8 ev rq ?e)) =
          ?pre
          @ log_events (AttemptOf (int k + 1) (retry rq + 1)) (quiet rq) (log_callback rq)
          @ [Spawn ?cmd]
          @ relay_events (printed (outcome (tool ev k ?cmd))) (quiet rq)
          @ log_events (DownloadError e) (quiet rq) (log_callback rq)
          @ (if int k < retry rq
             then log_events (RetryIn (retry_delay rq)) (quiet rq) (log_callback rq)
                  @ [Sleep (retry_delay rq)]
             else [])
          @ ?post"
      using t A by simp
    show "trace (snd (download_m3u8 ev' rq ?e)) =
          ?pre
          @ log_events (AttemptOf (int k + 1) (retry rq + 1)) (quiet rq) (log_callback rq)
          @ [Spawn ?cmd]
          @ relay_events (printed (outcome (tool ev' k ?cmd))) (quiet rq)
          @ log_events (DownloadFailed rc) (quiet rq) (log_callback rq)
          @ (if int k < retry rq
             then log_events (RetryIn (retry_delay rq)) (quiet rq) (log_callback rq)
                  @ [Sleep (retry_delay rq)]
             else [])
          @ ?post"
      using t' A' by simp
    show "actions ?pre = concat (replicate k [Spawn ?cmd, Sleep (retry_delay rq)])"
      by (rule a)
    show "\<exists>rest. ?post =
        log_events (AttemptOf (int k + 2) (retry rq + 1)) (quiet rq) (log_callback rq)
        @ [Spawn ?cmd] @ rest" if "int k < retry rq"
      using that by (rule nxt)
    show "?post = ?max" if "int k = retry rq"
      using that by (rule last)
  qed
  have 3: "\<exists>b. fst (download_m3u8 ev rq ?e) = Inr b"
    using delay by (rule download_m3u8_returns)
  let ?w = "log (StartDownload (url rq)) (quiet rq) (log_callback rq) ?e"
  have agree: "\<forall>a\<in>set (range_py (retry rq + 1)).
      succeeded (outcome (tool ev' (nat a) ?cmd)) = succeeded (outcome (tool ev (nat a) ?cmd))
      \<and> effect (tool ev' (nat a) ?cmd) = effect (tool ev (nat a) ?cmd)"
  proof
    fix a
    assume "a \<in> set (range_py (retry rq + 1))"
    show "succeeded (outcome (tool ev' (nat a) ?cmd)) = succeeded (outcome (tool ev (nat a) ?cmd))
      \<and> effect (tool ev' (nat a) ?cmd) = effect (tool ev (nat a) ?cmd)"
    proof (cases "nat a = k")
      case True
      then show ?thesis using nf nf' eff by simp
    next
      case False
      then show ?thesis using other by simp
    qed
  qed
  note l = retry_loop_cong [OF agree refl refl, of rq ?out ?w]
  have 4: "fst (download_m3u8 ev' rq ?e) = fst (download_m3u8 ev rq ?e)"
    using l by (simp add: download_m3u8_result p c del: trace_log)
  have 5: "files (snd (download_m3u8 ev' rq ?e)) = files (snd (download_m3u8 ev rq ?e))"
    using l by (simp add: download_m3u8_files p c del: trace_log)
  show ?thesis using 1 res 3 4 5 by blast
qed


text \<open>
  Two retries; the tool cannot be started on the first attempt and exits with 0 on the
  second. The run logs the fault, sleeps 5 seconds, starts the tool again and returns
  \<open>True\<close>; so does the run in which the first process exits with 1 instead.
\<close>

theorem fault_retried_like_failure_witness:
  "int 0 \<le> retry (example_request 2) \<and> 0 \<le> retry_delay (example_request 2)
   \<and> fault (outcome (tool (stub_tool (\<lambda>k. if k = 0 then SpawnFault ''no ffmpeg'' else Exited [] 0)) 0
        (request_cmd (stub_tool (\<lambda>k. if k = 0 then SpawnFault ''no ffmpeg'' else Exited [] 0))
           (example_request 2)))) = Some ''no ffmpeg''
   \<and> download_m3u8 (stub_tool (\<lambda>k. if k = 0 then SpawnFault ''no ffmpeg'' else Exited [] 0))
        (example_request 2) \<lparr>files = Map.empty, trace = []\<rparr>
       = (Inr True,
          \<lparr>files = Map.empty,
           trace =
             [PrintMsg (StartDownload ''http://x/a.m3u8''),
              CallbackMsg (StartDownload ''http://x/a.m3u8''),
              PrintMsg (AttemptOf 1 3), CallbackMsg (AttemptOf 1 3),
              Spawn (request_cmd
                (stub_tool (\<lambda>k. if k = 0 then SpawnFault ''no ffmpeg'' else Exited [] 0))
                (example_request 2)),
              PrintMsg (DownloadError ''no ffmpeg''), CallbackMsg (DownloadError ''no ffmpeg''),
              PrintMsg (RetryIn 5), CallbackMsg (RetryIn 5),
              Sleep 5,
              PrintMsg (AttemptOf 2 3), CallbackMsg (AttemptOf 2 3),
              Spawn (request_cmd
                (stub_tool (\<lambda>k. if k = 0 then SpawnFault ''no ffmpeg'' else Exited [] 0))
                (example_request 2)),
              PrintMsg (DownloadDone ''t1.mp4''), CallbackMsg (DownloadDone ''t1.mp4'')]\<rparr>)
   \<and> fst (download_m3u8 (stub_tool (\<lambda>k. if k = 0 then Exited [] 1 else Exited [] 0))
        (example_request 2) \<lparr>files = Map.empty, trace = []\<rparr>) = Inr True
   \<and> (\<exists>pre post.
        trace (snd (download_m3u8 (stub_tool (\<lambda>k. if k = 0 then Exited [] 1 else Exited [] 0))
          (example_request 2) \<lparr>files = Map.empty, trace = []\<rparr>)) =
          pre
          @ [PrintMsg (AttemptOf 1 3), CallbackMsg (AttemptOf 1 3),
             Spawn (request_cmd
               (stub_tool (\<lambda>k. if k = 0 then SpawnFault ''no ffmpeg'' else Exited [] 0))
               (example_request 2)),
             PrintMsg (DownloadFailed 1), CallbackMsg (DownloadFailed 1),
             PrintMsg (RetryIn 5), CallbackMsg (RetryIn 5),
             Sleep 5]
          @ post
        \<and> actions pre = [])"
proof -
  let ?ev = "stub_tool (\<lambda>k. if k = 0 then SpawnFault ''no ffmpeg'' else Exited [] 0)"
  let ?ev' = "stub_tool (\<lambda>k. if k = 0 then Exited [] 1 else Exited [] 0)"
  let ?rq = "example_request 2"
  let ?e = "\<lparr>files = Map.empty, trace = []\<rparr> :: world"
  have k: "int 0 \<le> retry ?rq" by (simp add: example_request_def)
  have delay: "0 \<le> retry_delay ?rq" by (simp add: example_request_def)
  have reached: "\<forall>j<0. \<not> succeeded (outcome (tool ?ev j (request_cmd ?ev ?rq)))" by simp
  have flt: "fault (outcome (tool ?ev 0 (request_cmd ?ev ?rq))) = Some ''no ffmpeg''"
    by (simp add: stub_tool_def)
  have fl: "exit_code (outcome (tool ?ev' 0 (request_cmd ?ev ?rq))) = Some 1" "(1::int) \<noteq> 0"
    by (simp_all add: stub_tool_def)
  have eff: "effect (tool ?ev' 0 (request_cmd ?ev ?rq)) = effect (tool ?ev 0 (request_cmd ?ev ?rq))"
    by (simp add: stub_tool_def effect_def fun_eq_iff)
  have other: "\<forall>j. j \<noteq> 0 \<longrightarrow> tool ?ev' j = tool ?ev j"
    by (simp add: stub_tool_def)
  have clk: "clock ?ev' = clock ?ev" by (simp add: stub_tool_def)
  have p: "resolved_path ?ev ?rq = ''t1.mp4''"
    by (simp add: resolved_path_def resolve_output_def example_request_def stub_tool_def
        endswith_def lower_def lower_char_def)
  have r: "range_py 3 = [0, 1, 2]" by (simp add: range_py_def upt_conv_Cons)
  have o: "outcome (tool ?ev 0 argv) = SpawnFault ''no ffmpeg''"
    "outcome (tool ?ev (Suc 0) argv) = Exited [] 0"
    "writes (tool ?ev (Suc 0) argv) = (\<lambda>f. f)" for argv
    by (simp_all add: stub_tool_def)
  have v: "retry ?rq = 2" "retry_delay ?rq = 5" "log_callback ?rq = True" "quiet ?rq = False"
    "url ?rq = ''http://x/a.m3u8''"
    by (simp_all add: example_request_def)
  have run: "download_m3u8 ?ev ?rq ?e
       = (Inr True,
          \<lparr>files = Map.empty,
           trace =
             [PrintMsg (StartDownload ''http://x/a.m3u8''),
              CallbackMsg (StartDownload ''http://x/a.m3u8''),
              PrintMsg (AttemptOf 1 3), CallbackMsg (AttemptOf 1 3),
              Spawn (request_cmd ?ev ?rq),
              PrintMsg (DownloadError ''no ffmpeg''), CallbackMsg (DownloadError ''no ffmpeg''),
              PrintMsg (RetryIn 5), CallbackMsg (RetryIn 5),
              Sleep 5,
              PrintMsg (AttemptOf 2 3), CallbackMsg (AttemptOf 2 3),
              Spawn (request_cmd ?ev ?rq),
              PrintMsg (DownloadDone ''t1.mp4''), CallbackMsg (DownloadDone ''t1.mp4'')]\<rparr>)"
    by (simp add: download_m3u8_def p r o v retry_loop_Cons attempt_body_def on_exception_def
        sleep_def Let_def log_def emit_def relay_def path_exists_def)
  note inst = fault_retried_like_failure [of Map.empty ?ev ?rq 0 "''no ffmpeg''" ?ev' 1,
      OF _ k delay reached flt fl eff other clk]
  have free: "Map.empty (resolved_path ?ev ?rq) = None" by simp
  have same: "fst (download_m3u8 ?ev' ?rq ?e) = fst (download_m3u8 ?ev ?rq ?e)"
    using inst by simp
  obtain pre post where
    t': "trace (snd (download_m3u8 ?ev' ?rq ?e)) =
          pre
          @ log_events (AttemptOf (int 0 + 1) (retry ?rq + 1)) (quiet ?rq) (log_callback ?rq)
          @ [Spawn (request_cmd ?ev ?rq)]
          @ relay_events (printed (outcome (tool ?ev' 0 (request_cmd ?ev ?rq)))) (quiet ?rq)
          @ log_events (DownloadFailed 1) (quiet ?rq) (log_callback ?rq)
          @ (if int 0 < retry ?rq
             then log_events (RetryIn (retry_delay ?rq)) (quiet ?rq) (log_callback ?rq)
                  @ [Sleep (retry_delay ?rq)]
             else [])
          @ post"
    and a: "actions pre = concat (replicate 0 [Spawn (request_cmd ?ev ?rq), Sleep (retry_delay ?rq)])"
    using inst by auto
  have pr: "printed (outcome (tool ?ev' 0 (request_cmd ?ev ?rq))) = []"
    by (simp add: stub_tool_def)
  have dec: "\<exists>pre post.
        trace (snd (download_m3u8 ?ev' ?rq ?e)) =
          pre
          @ [PrintMsg (AttemptOf 1 3), CallbackMsg (AttemptOf 1 3),
             Spawn (request_cmd ?ev ?rq),
             PrintMsg (DownloadFailed 1), CallbackMsg (DownloadFailed 1),
             PrintMsg (RetryIn 5), CallbackMsg (RetryIn 5),
             Sleep 5]
          @ post
        \<and> actions pre = []"
    using t' a by (intro exI [of _ pre] exI [of _ post]) (simp add: v pr log_events_def relay_events_def)
  show ?thesis using k delay flt run same dec by simp
qed

end
